theory Spec2Isabelle
  imports Main
begin

section \<open>Strings of the standard library\<close>


definition is_upper :: "char \<Rightarrow> bool" where
  "is_upper c = (65 \<le> (of_char c :: nat) \<and> (of_char c :: nat) \<le> 90)"

definition lower_byte :: "char \<Rightarrow> char" where
  "lower_byte c = (if is_upper c then char_of ((of_char c :: nat) + 32) else c)"

definition ToLower :: "string \<Rightarrow> string" where
  "ToLower s = map lower_byte s"

fun HasPrefix :: "string \<Rightarrow> string \<Rightarrow> bool" where
  "HasPrefix s [] = True"
| "HasPrefix [] (c # pre) = False"
| "HasPrefix (d # s) (c # pre) = (d = c \<and> HasPrefix s pre)"

text \<open>\<^verbatim>\<open>strings.Contains(s, substr)\<close>: \<^verbatim>\<open>substr\<close> occurs in \<^verbatim>\<open>s\<close> at some index.\<close>

fun Contains :: "string \<Rightarrow> string \<Rightarrow> bool" where
  "Contains [] substr = (substr = [])"
| "Contains (c # s) substr = (HasPrefix (c # s) substr \<or> Contains s substr)"

text \<open>
  \<^verbatim>\<open>strings.EqualFold(s, t)\<close>: the loop over \<^verbatim>\<open>min(len(s), len(t))\<close> positions followed by
  \<^verbatim>\<open>len(s) == len(t)\<close>.  At each position: equal bytes continue; otherwise the smaller
  byte must be in \<^verbatim>\<open>'A'..'Z'\<close> and the larger one be it plus \<^verbatim>\<open>'a' - 'A'\<close>.
\<close>

fun EqualFold :: "string \<Rightarrow> string \<Rightarrow> bool" where
  "EqualFold [] [] = True"
| "EqualFold [] (tr # t) = False"
| "EqualFold (sr # s) [] = False"
| "EqualFold (sr # s) (tr # t) =
     (if tr = sr then EqualFold s t
      else if (of_char tr :: nat) < of_char sr
      then (if is_upper tr \<and> (of_char sr :: nat) = of_char tr + 32 then EqualFold s t else False)
      else (if is_upper sr \<and> (of_char tr :: nat) = of_char sr + 32 then EqualFold s t else False))"

fun HasSuffix :: "string \<Rightarrow> string \<Rightarrow> bool" where
  "HasSuffix s suffix = HasPrefix (rev s) (rev suffix)"

definition TrimSuffix :: "string \<Rightarrow> string \<Rightarrow> string" where
  "TrimSuffix s suffix = (if HasSuffix s suffix then take (length s - length suffix) s else s)"

section \<open>Regular expressions\<close>

text \<open>
  A compiled \<^verbatim>\<open>*regexp.Regexp\<close> is given by the segments it matches: \<open>re s i j\<close> holds
  when the pattern matches the bytes \<open>i..<j\<close> of the text \<open>s\<close> (the whole text is passed,
  since anchors and word boundaries look at what surrounds the segment).
  \<^verbatim>\<open>MatchString\<close> reports whether the text contains any match.  Which segments a pattern
  matches, and which patterns compile, is the business of package \<^verbatim>\<open>regexp\<close>: the
  compiler is a parameter (\<open>MustCompile\<close> of \<open>env\<close> below, \<open>None\<close> when it panics).
\<close>

type_synonym regexp = "string \<Rightarrow> nat \<Rightarrow> nat \<Rightarrow> bool"

definition MatchString :: "regexp \<Rightarrow> string \<Rightarrow> bool" where
  "MatchString re s =
     list_ex (\<lambda>i. list_ex (\<lambda>j. re s i j) [i..<Suc (length s)]) [0..<Suc (length s)]"

text \<open>The pattern of a literal text without metacharacters, as \<^verbatim>\<open>regexp\<close> compiles it.\<close>

definition literal :: "string \<Rightarrow> regexp" where
  "literal w s i j = (take (j - i) (drop i s) = w \<and> j - i = length w)"

section \<open>Paths\<close>

text \<open>
  Package \<^verbatim>\<open>path/filepath\<close> with the separator \<^verbatim>\<open>/\<close>: \<^verbatim>\<open>Ext\<close> scans backwards for a
  dot and stops at a separator; \<^verbatim>\<open>Base\<close> strips trailing separators and keeps the last
  element; \<^verbatim>\<open>Clean\<close> drops empty and \<^verbatim>\<open>.\<close> elements and resolves \<^verbatim>\<open>..\<close>; \<^verbatim>\<open>Join\<close>
  ignores empty elements and cleans the result.
\<close>

definition IsPathSeparator :: "char \<Rightarrow> bool" where
  "IsPathSeparator c = (c = CHR ''/'')"

fun ext_scan :: "string \<Rightarrow> string \<Rightarrow> string" where
  "ext_scan [] acc = []"
| "ext_scan (c # cs) acc =
     (if IsPathSeparator c then []
      else if c = CHR ''.'' then c # acc
      else ext_scan cs (c # acc))"

definition Ext :: "string \<Rightarrow> string" where
  "Ext path = ext_scan (rev path) []"

definition Base :: "string \<Rightarrow> string" where
  "Base path =
     (if path = [] then ''.''
      else let stripped = rev (dropWhile IsPathSeparator (rev path));
               elem = rev (takeWhile (\<lambda>c. \<not> IsPathSeparator c) (rev stripped))
           in if elem = [] then ''/'' else elem)"

fun split_sep :: "string \<Rightarrow> string \<Rightarrow> string list" where
  "split_sep [] acc = [rev acc]"
| "split_sep (c # cs) acc =
     (if IsPathSeparator c then rev acc # split_sep cs [] else split_sep cs (c # acc))"

fun clean_elems :: "bool \<Rightarrow> string list \<Rightarrow> string list \<Rightarrow> string list" where
  "clean_elems rooted [] out = rev out"
| "clean_elems rooted (el # els) out =
     (if el = [] \<or> el = ''.'' then clean_elems rooted els out
      else if el = ''..'' then
        (case out of
           [] \<Rightarrow> if rooted then clean_elems rooted els out else clean_elems rooted els (el # out)
         | prev # below \<Rightarrow>
             if prev = ''..'' then clean_elems rooted els (el # out)
             else clean_elems rooted els below)
      else clean_elems rooted els (el # out))"

fun join_sep :: "string list \<Rightarrow> string" where
  "join_sep [] = []"
| "join_sep [el] = el"
| "join_sep (el # els) = el @ ''/'' @ join_sep els"

definition Clean :: "string \<Rightarrow> string" where
  "Clean path =
     (if path = [] then ''.''
      else let rooted = IsPathSeparator (hd path);
               body = join_sep (clean_elems rooted (split_sep path []) [])
           in if rooted then CHR ''/'' # body
              else if body = [] then ''.'' else body)"

definition Join :: "string \<Rightarrow> string \<Rightarrow> string" where
  "Join a b =
     (if a = [] \<and> b = [] then []
      else if a = [] then Clean b
      else if b = [] then Clean a
      else Clean (a @ ''/'' @ b))"

section \<open>The processor and its surroundings\<close>

text \<open>
  \<^verbatim>\<open>type Processor struct\<close>.  The logger, the shutdown flag and the wait group are
  part of the run's state below; \<^verbatim>\<open>onShutdown\<close> is never appended to.
\<close>

record processor =
  Threads :: int
  Input :: string
  Output :: string
  Field :: string
  Values :: "string list"
  ValuesRegex :: "regexp list"
  FileFilter :: regexp
  MatchMode :: string

text \<open>
  What \<^verbatim>\<open>jsoniter.Get(line, field)\<close> returns, and \<^verbatim>\<open>ToString\<close> on it: the invalid
  value (a lookup that failed) and \<^verbatim>\<open>null\<close> give the empty string, a string its
  decoded text, a number, an object and an array the bytes they were read from, the
  booleans \<^verbatim>\<open>true\<close> and \<^verbatim>\<open>false\<close>.  The lookup itself is the library's: \<open>Get\<close> of \<open>env\<close>.
\<close>

datatype any =
    InvalidAny
  | StringAny string
  | NumberAny string
  | TrueAny
  | FalseAny
  | NilAny
  | ObjectAny string
  | ArrayAny string

fun ToString :: "any \<Rightarrow> string" where
  "ToString InvalidAny = []"
| "ToString (StringAny v) = v"
| "ToString (NumberAny raw) = raw"
| "ToString TrueAny = ''true''"
| "ToString FalseAny = ''false''"
| "ToString NilAny = []"
| "ToString (ObjectAny raw) = raw"
| "ToString (ArrayAny raw) = raw"

datatype level = LevelInfo | LevelWarn | LevelError

datatype entry = Log level string string

datatype error = ErrProcessClosed | DeadlineExceeded | PathError string

datatype panic = PanicIndexOutOfRange | PanicCompile string | PanicError string

text \<open>
  An input path as the worker finds it: whether \<^verbatim>\<open>os.Stat\<close>, \<^verbatim>\<open>os.Open\<close> and
  \<^verbatim>\<open>zstd.NewReader\<close> fail, the bytes the decoder yields, and whether the decoder ends
  them with an error instead of the end of the stream.
\<close>

record input_file =
  stat_err :: bool
  open_err :: bool
  reader_err :: bool
  content :: string
  read_err :: bool

text \<open>\<^verbatim>\<open>WriteString\<close> returns the number of bytes written and an error, if any.\<close>

datatype write_result = WriteOk | WriteErr nat

type_synonym files = "string \<rightharpoonup> string"

record env =
  Get :: "string \<Rightarrow> string \<Rightarrow> any"
  MustCompile :: "string \<Rightarrow> regexp option"
  input_of :: "string \<Rightarrow> input_file"
  open_out_err :: "files \<Rightarrow> string \<Rightarrow> bool"
  write_out :: "files \<Rightarrow> string \<Rightarrow> string \<Rightarrow> write_result"

section \<open>Matching one line\<close>

text \<open>
  The state of a run: the shutdown flag, the output directory (file name to content),
  the log, and what \<^verbatim>\<open>Serve\<close> and \<^verbatim>\<open>Shutdown\<close> share (further down).
\<close>

datatype outcome = Completed | AbortedByShutdown | AbortedByError

datatype scan_end = AtEOF | TooLong | ReadError

datatype pc =
    Admitted
  | Scanning "string list" scan_end
  | Matching string "string list" scan_end
  | Exited outcome

record worker =
  wfile :: string
  wpc :: pc
  bar :: nat
  released :: nat

record state =
  inShutdown :: bool
  fs :: files
  logs :: "entry list"
  pending :: "string list"
  sem :: int
  wg :: int
  workers :: "worker list"
  shutdown_called :: bool
  ctx_done :: bool
  done_closed :: bool
  shutdown_ret :: "error option option"

definition outFileName :: "processor \<Rightarrow> string \<Rightarrow> string \<Rightarrow> string" where
  "outFileName p inputPath val =
     Join (Output p) (TrimSuffix (Base inputPath) (Ext inputPath) @ ''_'' @ val @ ''.ndjson'')"

definition newline :: char where
  "newline = CHR 0x0A"

text \<open>
  \<^verbatim>\<open>Processor.write\<close> (\<open>proc_write\<close>, as \<open>write\<close> is a command of Isabelle): open for append (creating the file), write the line and a
  newline, close.  Either failure is logged as a warning and the function returns.
  A failed \<^verbatim>\<open>WriteString\<close> may have written some of the bytes.
\<close>

definition proc_write :: "processor \<Rightarrow> env \<Rightarrow> string \<Rightarrow> string \<Rightarrow> string \<Rightarrow> state \<Rightarrow> state" where
  "proc_write p e inputPath val line st =
     (let name = outFileName p inputPath val in
      if open_out_err e (fs st) name
      then st\<lparr>logs := logs st @ [Log LevelWarn ''failed to open output file'' name]\<rparr>
      else
        let old = (case fs st name of None \<Rightarrow> [] | Some c \<Rightarrow> c);
            data = line @ [newline]
        in case write_out e (fs st) name data of
             WriteOk \<Rightarrow> st\<lparr>fs := (fs st)(name \<mapsto> old @ data)\<rparr>
           | WriteErr n \<Rightarrow>
               st\<lparr>fs := (fs st)(name \<mapsto> old @ take n data),
                  logs := logs st @ [Log LevelWarn ''failed to write to output file'' name]\<rparr>)"

text \<open>
  The \<^verbatim>\<open>switch p.MatchMode\<close> of one iteration of the loop over \<^verbatim>\<open>p.Values\<close>, at index
  \<open>i\<close> with candidate \<open>val\<close>.  \<^verbatim>\<open>p.ValuesRegex[i]\<close> panics when the index is out of range.
  A mode that is none of the three leaves \<^verbatim>\<open>matched\<close> false.
\<close>

definition matched_at :: "processor \<Rightarrow> nat \<Rightarrow> string \<Rightarrow> string \<Rightarrow> panic + bool" where
  "matched_at p i val fieldVal =
     (if MatchMode p = ''regex'' then
        (if i < length (ValuesRegex p) then Inr (MatchString (ValuesRegex p ! i) fieldVal)
         else Inl PanicIndexOutOfRange)
      else if MatchMode p = ''partial'' then Inr (Contains (ToLower fieldVal) (ToLower val))
      else if MatchMode p = ''exact'' then Inr (EqualFold fieldVal val)
      else Inr False)"

text \<open>The loop \<^verbatim>\<open>for i, val := range p.Values\<close> from index \<open>i\<close> on: it breaks at the first match.\<close>

fun match_values :: "processor \<Rightarrow> nat \<Rightarrow> string list \<Rightarrow> string \<Rightarrow> panic + string option" where
  "match_values p i [] fieldVal = Inr None"
| "match_values p i (val # vals) fieldVal =
     (case matched_at p i val fieldVal of
        Inl pv \<Rightarrow> Inl pv
      | Inr True \<Rightarrow> Inr (Some val)
      | Inr False \<Rightarrow> match_values p (Suc i) vals fieldVal)"

text \<open>
  The body of \<^verbatim>\<open>for scanner.Scan()\<close> after the shutdown check.  The boolean of the
  result tells whether the body reached \<^verbatim>\<open>bar.IncrBy(512)\<close> (both \<^verbatim>\<open>continue\<close>s skip it).
\<close>

definition process_line ::
  "processor \<Rightarrow> env \<Rightarrow> string \<Rightarrow> string \<Rightarrow> state \<Rightarrow> panic + (bool \<times> state)" where
  "process_line p e file line st =
     (if length line = 0 then Inr (False, st)
      else
        let fieldVal = ToString (Get e line (Field p)) in
        if fieldVal = [] then Inr (False, st)
        else case match_values p 0 (Values p) fieldVal of
               Inl pv \<Rightarrow> Inl pv
             | Inr None \<Rightarrow> Inr (True, st)
             | Inr (Some val) \<Rightarrow> Inr (True, proc_write p e file val line st))"

section \<open>The scanner\<close>

text \<open>
  \<^verbatim>\<open>bufio.Scanner\<close> with the default split function \<^verbatim>\<open>ScanLines\<close> and a buffer that
  grows up to \<open>m\<close> bytes: a token is the text up to the next newline, without one
  trailing carriage return; the last line needs no newline; a line that does not fit
  below \<open>m\<close> bytes stops the scanner with \<^verbatim>\<open>ErrTooLong\<close>; an error of the reader stops it
  after what was read.  The function returns every token \<^verbatim>\<open>Scan\<close> delivers and what
  \<^verbatim>\<open>scanner.Err()\<close> is afterwards; \<open>acc\<close> holds the bytes of the current line, reversed.
\<close>

definition maxTokenSize :: nat where
  "maxTokenSize = 512 * 2 ^ 20"

definition dropCR :: "string \<Rightarrow> string" where
  "dropCR data = (if data \<noteq> [] \<and> last data = CHR 0x0D then butlast data else data)"

fun scan_lines :: "nat \<Rightarrow> bool \<Rightarrow> string \<Rightarrow> string \<Rightarrow> string list \<times> scan_end" where
  "scan_lines m rerr acc [] =
     (if acc = [] then ([], if rerr then ReadError else AtEOF)
      else if length acc < m then ([dropCR (rev acc)], if rerr then ReadError else AtEOF)
      else ([], TooLong))"
| "scan_lines m rerr acc (c # cs) =
     (if c = newline then
        (if length acc < m
         then (case scan_lines m rerr [] cs of (toks, fin) \<Rightarrow> (dropCR (rev acc) # toks, fin))
         else ([], TooLong))
      else scan_lines m rerr (c # acc) cs)"

section \<open>Serve, its workers, and Shutdown\<close>

text \<open>
  \<^verbatim>\<open>Serve\<close> and its goroutines as an interleaving of atomic steps chosen by a schedule.
  \<^item> \<open>Dispatch\<close>: one iteration of \<^verbatim>\<open>for _, file := range f\<close>: \<^verbatim>\<open>sem.Acquire\<close> (enabled
    when a slot is free) and \<^verbatim>\<open>p.wg.Go\<close>.
  \<^item> \<open>Step i\<close>: worker \<open>i\<close> moves on.  From \<open>Admitted\<close> it stats and opens the file and
    builds the decoder and the scanner; from \<open>Scanning\<close> it calls \<^verbatim>\<open>scanner.Scan()\<close> and
    reads the shutdown flag; from \<open>Matching\<close> it runs the rest of the loop body.
    Leaving runs the deferred function (\<^verbatim>\<open>sem.Release(1)\<close>, then \<^verbatim>\<open>recover\<close> and its log)
    and the \<^verbatim>\<open>wg.Done\<close> of \<^verbatim>\<open>wg.Go\<close>.
  \<^item> \<open>CallShutdown\<close>: \<^verbatim>\<open>p.inShutdown.Store(true)\<close>; \<open>WaitReturns\<close>: \<^verbatim>\<open>p.wg.Wait()\<close> returns
    in the goroutine of \<^verbatim>\<open>Shutdown\<close> and \<^verbatim>\<open>done\<close> is closed; \<open>DeadlineFires\<close>: \<^verbatim>\<open>ctx.Done()\<close>
    is closed; \<open>ShutdownReturns b\<close>: the \<^verbatim>\<open>select\<close>, where \<open>b\<close> is the choice when both
    channels are ready.
  An action that is not enabled leaves the state as it is.
\<close>

datatype action =
    Dispatch
  | Step nat
  | CallShutdown
  | WaitReturns
  | DeadlineFires
  | ShutdownReturns bool

definition dispatch :: "processor \<Rightarrow> state \<Rightarrow> state" where
  "dispatch p st =
     (case pending st of
        [] \<Rightarrow> st
      | file # rest \<Rightarrow>
          if sem st + 1 \<le> Threads p
          then st\<lparr>pending := rest, sem := sem st + 1, wg := wg st + 1,
                  workers := workers st @ [\<lparr>wfile = file, wpc = Admitted, bar = 0, released = 0\<rparr>]\<rparr>
          else st)"

definition finish :: "nat \<Rightarrow> outcome \<Rightarrow> entry list \<Rightarrow> state \<Rightarrow> state" where
  "finish i oc es st =
     st\<lparr>sem := sem st - 1, wg := wg st - 1, logs := logs st @ es,
        workers := (workers st)[i := (workers st ! i)\<lparr>wpc := Exited oc,
                                     released := released (workers st ! i) + 1\<rparr>]\<rparr>"

definition panic_text :: "panic \<Rightarrow> string" where
  "panic_text pv =
     (case pv of
        PanicIndexOutOfRange \<Rightarrow> ''index out of range''
      | PanicCompile expr \<Rightarrow> expr
      | PanicError err \<Rightarrow> err)"

definition recovered :: "panic \<Rightarrow> entry" where
  "recovered pv = Log LevelError ''panic recovered in worker'' (panic_text pv)"

definition worker_step :: "processor \<Rightarrow> env \<Rightarrow> nat \<Rightarrow> state \<Rightarrow> state" where
  "worker_step p e i st =
     (if i < length (workers st) then
        let w = workers st ! i; file = wfile w in
        case wpc w of
          Admitted \<Rightarrow>
            let inp = input_of e file in
            if stat_err inp then
              finish i AbortedByError
                [Log LevelError ''failed to get file information'' file, recovered (PanicError file)] st
            else if open_err inp then
              finish i AbortedByError
                [Log LevelError ''failed to open file'' file, recovered (PanicError file)] st
            else if reader_err inp then
              finish i AbortedByError
                [Log LevelError ''failed to create zstd reader'' file, recovered (PanicError file)] st
            else
              (case scan_lines maxTokenSize (read_err inp) [] (content inp) of
                 (toks, fin) \<Rightarrow> st\<lparr>workers := (workers st)[i := w\<lparr>wpc := Scanning toks fin\<rparr>]\<rparr>)
        | Scanning [] fin \<Rightarrow> finish i Completed [] st
        | Scanning (line # rest) fin \<Rightarrow>
            if inShutdown st then
              finish i AbortedByShutdown
                [Log LevelWarn ''skipping further processing of file'' file] st
            else st\<lparr>workers := (workers st)[i := w\<lparr>wpc := Matching line rest fin\<rparr>]\<rparr>
        | Matching line rest fin \<Rightarrow>
            (case process_line p e file line st of
               Inl pv \<Rightarrow> finish i AbortedByError [recovered pv] st
             | Inr (incr, st') \<Rightarrow>
                 st'\<lparr>workers := (workers st')[i := w\<lparr>wpc := Scanning rest fin,
                                                    bar := bar w + (if incr then 512 else 0)\<rparr>]\<rparr>)
        | Exited oc \<Rightarrow> st
      else st)"

definition shutdown_select :: "bool \<Rightarrow> state \<Rightarrow> state" where
  "shutdown_select pick_done st =
     (if shutdown_called st \<and> shutdown_ret st = None then
        (if done_closed st \<and> ctx_done st
         then st\<lparr>shutdown_ret := Some (if pick_done then None else Some DeadlineExceeded)\<rparr>
         else if ctx_done st then st\<lparr>shutdown_ret := Some (Some DeadlineExceeded)\<rparr>
         else if done_closed st then st\<lparr>shutdown_ret := Some None\<rparr>
         else st)
      else st)"

fun exec :: "processor \<Rightarrow> env \<Rightarrow> action \<Rightarrow> state \<Rightarrow> state" where
  "exec p e Dispatch st = dispatch p st"
| "exec p e (Step i) st = worker_step p e i st"
| "exec p e CallShutdown st =
     (if shutdown_called st then st else st\<lparr>inShutdown := True, shutdown_called := True\<rparr>)"
| "exec p e WaitReturns st =
     (if shutdown_called st \<and> wg st = 0 then st\<lparr>done_closed := True\<rparr> else st)"
| "exec p e DeadlineFires st = st\<lparr>ctx_done := True\<rparr>"
| "exec p e (ShutdownReturns b) st = shutdown_select b st"

fun run :: "processor \<Rightarrow> env \<Rightarrow> action list \<Rightarrow> state \<Rightarrow> state" where
  "run p e [] st = st"
| "run p e (a # as) st = run p e as (exec p e a st)"

text \<open>The state in which \<^verbatim>\<open>Serve(f)\<close> starts.\<close>

definition serve_init :: "string list \<Rightarrow> files \<Rightarrow> entry list \<Rightarrow> state" where
  "serve_init f out lg =
     \<lparr>inShutdown = False, fs = out, logs = lg, pending = f, sem = 0, wg = 0, workers = [],
      shutdown_called = False, ctx_done = False, done_closed = False, shutdown_ret = None\<rparr>"

text \<open>The workers that hold a slot: admitted and not yet in a terminal state.\<close>

fun exited :: "pc \<Rightarrow> bool" where
  "exited (Exited oc) = True"
| "exited Admitted = False"
| "exited (Scanning toks fin) = False"
| "exited (Matching line toks fin) = False"

fun matching :: "pc \<Rightarrow> bool" where
  "matching (Matching line toks fin) = True"
| "matching Admitted = False"
| "matching (Scanning toks fin) = False"
| "matching (Exited oc) = False"

definition active :: "state \<Rightarrow> nat" where
  "active st = length (filter (\<lambda>w. \<not> exited (wpc w)) (workers st))"

section \<open>Discovery and ProcessAndServe\<close>

text \<open>
  What \<^verbatim>\<open>filepath.Walk\<close> finds at a path: an entry that \<^verbatim>\<open>os.Lstat\<close> cannot read, an
  entry that is no directory (a regular file, a symbolic link, which \<^verbatim>\<open>Walk\<close> does not
  follow, or a pipe, socket or device), a directory with its entries in the order
  \<^verbatim>\<open>Walk\<close> reads them, or a directory whose names cannot be read.
\<close>

datatype ftype = Regular | Symlink | Irregular

datatype node =
    LstatError string string
  | File string ftype
  | Dir string "node list"
  | DirError string string

fun node_name :: "node \<Rightarrow> string" where
  "node_name (LstatError name err) = name"
| "node_name (File name ty) = name"
| "node_name (Dir name ns) = name"
| "node_name (DirError name err) = name"

type_synonym found = "string list \<times> entry list"

text \<open>
  The function passed to \<^verbatim>\<open>filepath.Walk\<close> on an entry without error: \<open>isdir\<close> is
  \<^verbatim>\<open>info.IsDir()\<close> and \<open>name\<close> is \<^verbatim>\<open>info.Name()\<close>.  It always returns \<^verbatim>\<open>nil\<close> there; on
  an entry with an error it returns the error, which ends the walk.
\<close>

definition visit :: "processor \<Rightarrow> string \<Rightarrow> string \<Rightarrow> bool \<Rightarrow> found \<Rightarrow> found" where
  "visit p path name isdir acc =
     (if isdir \<or> Ext name \<noteq> ''.zst'' then acc
      else if \<not> MatchString (FileFilter p) name then acc
      else (fst acc @ [path], snd acc @ [Log LevelInfo ''found input file'' path]))"

fun walk :: "processor \<Rightarrow> string \<Rightarrow> node \<Rightarrow> found \<Rightarrow> found \<times> error option"
  and walk_names :: "processor \<Rightarrow> string \<Rightarrow> node list \<Rightarrow> found \<Rightarrow> found \<times> error option" where
  "walk p path (LstatError name err) acc = (acc, Some (PathError err))"
| "walk p path (File name ty) acc = (visit p path name False acc, None)"
| "walk p path (DirError name err) acc = (acc, Some (PathError err))"
| "walk p path (Dir name ns) acc = walk_names p path ns (visit p path name True acc)"
| "walk_names p dir [] acc = (acc, None)"
| "walk_names p dir (n # ns) acc =
     (case walk p (Join dir (node_name n)) n acc of
        (acc', Some err) \<Rightarrow> (acc', Some err)
      | (acc', None) \<Rightarrow> walk_names p dir ns acc')"

fun compile_all :: "env \<Rightarrow> string list \<Rightarrow> regexp list \<Rightarrow> panic + regexp list" where
  "compile_all e [] rs = Inr rs"
| "compile_all e (val # vals) rs =
     (case MustCompile e val of
        None \<Rightarrow> Inl (PanicCompile val)
      | Some re \<Rightarrow> compile_all e vals (rs @ [re]))"

text \<open>
  \<^verbatim>\<open>ProcessAndServe\<close> up to the call of \<^verbatim>\<open>Serve\<close>: \<open>shut\<close> is the shutdown flag as read
  on entry, \<open>root\<close> what is at \<^verbatim>\<open>p.Input\<close>, \<open>lg\<close> the log so far.  It panics (in
  \<^verbatim>\<open>MustCompile\<close>), returns, or goes on as \<^verbatim>\<open>Serve(f)\<close> with the regexps compiled.
\<close>

datatype pas_result =
    Panicked panic
  | Returned "error option" "entry list"
  | Serving processor "string list" "entry list"

definition ProcessAndServe :: "processor \<Rightarrow> env \<Rightarrow> bool \<Rightarrow> node \<Rightarrow> entry list \<Rightarrow> pas_result" where
  "ProcessAndServe p e shut root lg =
     (if shut then Returned (Some ErrProcessClosed) lg
      else
        case (if MatchMode p = ''regex'' then compile_all e (Values p) (ValuesRegex p)
              else Inr (ValuesRegex p)) of
          Inl pv \<Rightarrow> Panicked pv
        | Inr rs \<Rightarrow>
            let p' = p\<lparr>ValuesRegex := rs\<rparr> in
            case walk p' (Input p') root ([], lg) of
              ((f, lg'), Some err) \<Rightarrow> Returned (Some err) lg'
            | ((f, lg'), None) \<Rightarrow>
                if length f = 0
                then Returned None
                       (lg' @ [Log LevelWarn ''no input files found in input folder'' (Input p')])
                else Serving p' f lg')"

text \<open>
  Every entry at and under a path, with its own path, in the order of the walk; and
  whether the walk meets an error anywhere.
\<close>

fun entries :: "string \<Rightarrow> node \<Rightarrow> (string \<times> node) list"
  and entries_in :: "string \<Rightarrow> node list \<Rightarrow> (string \<times> node) list" where
  "entries path (Dir name ns) = (path, Dir name ns) # entries_in path ns"
| "entries path (LstatError name err) = [(path, LstatError name err)]"
| "entries path (File name ty) = [(path, File name ty)]"
| "entries path (DirError name err) = [(path, DirError name err)]"
| "entries_in dir [] = []"
| "entries_in dir (n # ns) = entries (Join dir (node_name n)) n @ entries_in dir ns"

fun readable :: "node \<Rightarrow> bool" where
  "readable (LstatError name err) = False"
| "readable (DirError name err) = False"
| "readable (File name ty) = True"
| "readable (Dir name ns) = True"

fun is_regular :: "node \<Rightarrow> bool" where
  "is_regular (File name ty) = (ty = Regular)"
| "is_regular (LstatError name err) = False"
| "is_regular (Dir name ns) = False"
| "is_regular (DirError name err) = False"

fun is_file :: "node \<Rightarrow> bool" where
  "is_file (File name ty) = True"
| "is_file (LstatError name err) = False"
| "is_file (Dir name ns) = False"
| "is_file (DirError name err) = False"

definition selected :: "processor \<Rightarrow> node \<Rightarrow> bool" where
  "selected p n = (Ext (node_name n) = ''.zst'' \<and> MatchString (FileFilter p) (node_name n))"

text \<open>
  An entry with its path that the walk keeps: no directory, the extension and the
  filter as above; and the log line for it.
\<close>

definition eligible :: "processor \<Rightarrow> string \<times> node \<Rightarrow> bool" where
  "eligible p x = (is_file (snd x) \<and> selected p (snd x))"

definition found_entry :: "string \<times> node \<Rightarrow> entry" where
  "found_entry x = Log LevelInfo ''found input file'' (fst x)"


section \<open>The example of the documentation\<close>

text \<open>
  The input \<^verbatim>\<open>RS_2020-01.zst\<close> with two records, the field \<^verbatim>\<open>subreddit\<close> and the values
  \<^verbatim>\<open>wallstreetbets\<close> and \<^verbatim>\<open>LivestreamFail\<close>; every system call succeeds, the file filter is
  \<^verbatim>\<open>.*\<close>, and a pattern without metacharacters compiles to its literal.
\<close>

definition any_name :: regexp where
  "any_name s i j = True"

definition ex_line1 :: string where
  "ex_line1 = ''{\"subreddit\":\"wallstreetbets\",\"title\":\"GME\"}''"

definition ex_line2 :: string where
  "ex_line2 = ''{\"subreddit\":\"pics\",\"title\":\"x\"}''"

definition ex_get :: "string \<Rightarrow> string \<Rightarrow> any" where
  "ex_get line field =
     (if field = ''subreddit'' \<and> line = ex_line1 then StringAny ''wallstreetbets''
      else if field = ''subreddit'' \<and> line = ex_line2 then StringAny ''pics''
      else if field = ''score'' \<and> line = ''{\"score\":42}'' then NumberAny ''42''
      else InvalidAny)"

definition ex_input :: input_file where
  "ex_input = \<lparr>stat_err = False, open_err = False, reader_err = False,
               content = ex_line1 @ [newline] @ ex_line2 @ [newline], read_err = False\<rparr>"

definition ex_env :: env where
  "ex_env = \<lparr>Get = ex_get, MustCompile = (\<lambda>expr. Some (literal expr)),
             input_of = (\<lambda>path. ex_input),
             open_out_err = (\<lambda>out name. False), write_out = (\<lambda>out name data. WriteOk)\<rparr>"

definition ex_proc :: processor where
  "ex_proc = \<lparr>Threads = 1, Input = ''in'', Output = ''out'', Field = ''subreddit'',
              Values = [''wallstreetbets'', ''LivestreamFail''], ValuesRegex = [],
              FileFilter = any_name, MatchMode = ''exact''\<rparr>"

definition two_proc :: processor where
  "two_proc = ex_proc\<lparr>Values := [''wall'', ''street''], MatchMode := ''partial''\<rparr>"

text \<open>A run state with one worker about to match a line of the example file.\<close>

definition at_line :: "string \<Rightarrow> state" where
  "at_line line =
     \<lparr>inShutdown = False, fs = Map.empty, logs = [], pending = [], sem = 1, wg = 1,
      workers = [\<lparr>wfile = ''in/RS_2020-01.zst'', wpc = Matching line [] AtEOF, bar = 0,
                  released = 0\<rparr>],
      shutdown_called = False, ctx_done = False, done_closed = False, shutdown_ret = None\<rparr>"

text \<open>
  Input trees: files of the example in two directories, with a text file and a
  directory named like an archive; a symbolic link named like an archive; a directory
  that cannot be read.
\<close>

definition tree_example :: node where
  "tree_example =
     Dir ''in'' [File ''RS_2020-01.zst'' Regular, File ''notes.txt'' Regular,
                 Dir ''2021'' [File ''RC_2021-01.zst'' Regular], Dir ''old.zst'' []]"

definition link_example :: node where
  "link_example = Dir ''in'' [File ''RS_2020-01.zst'' Symlink]"

definition locked_example :: node where
  "locked_example = Dir ''in'' [File ''RS_2020-01.zst'' Regular, DirError ''2021'' ''permission denied'']"

section \<open>Invariants of a run\<close>

text \<open>
  A worker has called \<^verbatim>\<open>sem.Release\<close> once if it has exited and not at all otherwise;
  the semaphore and the wait group count the workers that have not exited, within
  the capacity; the files handed to \<^verbatim>\<open>Serve\<close> are those of the workers, in order,
  followed by the pending ones.
\<close>

definition released_once :: "worker \<Rightarrow> bool" where
  "released_once w = (released w = (if exited (wpc w) then 1 else 0))"

definition slots_ok :: "processor \<Rightarrow> state \<Rightarrow> bool" where
  "slots_ok p st =
     (sem st = int (active st) \<and> wg st = int (active st) \<and> sem st \<le> max 0 (Threads p)
      \<and> list_all released_once (workers st))"

definition files_ok :: "string list \<Rightarrow> state \<Rightarrow> bool" where
  "files_ok f st = (map wfile (workers st) @ pending st = f)"

text \<open>
  The example with a second input file, at the moment \<^verbatim>\<open>Shutdown\<close> sets the flag while
  the first worker is in the middle of its first line; an input file that cannot be
  read; and an input whose first line is longer than the scanner's limit.
\<close>

definition mid_line :: state where
  "mid_line = run ex_proc ex_env [Dispatch, Step 0, Step 0, CallShutdown]
                (serve_init [''in/RS_2020-01.zst'', ''in/RS_2020-02.zst''] Map.empty [])"

definition bad_env :: env where
  "bad_env = ex_env\<lparr>input_of := \<lambda>path. ex_input\<lparr>stat_err := True\<rparr>\<rparr>"

definition long_line :: string where
  "long_line = replicate (maxTokenSize + 1) (CHR ''a'')"

definition long_env :: env where
  "long_env = ex_env\<lparr>input_of := \<lambda>path.
       ex_input\<lparr>content := long_line @ newline # ex_line1 @ [newline]\<rparr>\<rparr>"

section \<open>Properties of the library functions\<close>







lemma MatchString_iff:
  "MatchString re s \<longleftrightarrow> (\<exists>a b. a \<le> b \<and> b \<le> length s \<and> re s a b)"
proof -
  have "MatchString re s \<longleftrightarrow> (\<exists>a \<in> {0..<Suc (length s)}. \<exists>b \<in> {a..<Suc (length s)}. re s a b)"
    by (simp only: MatchString_def list_ex_iff set_upt)
  also have "\<dots> \<longleftrightarrow> (\<exists>a b. a \<le> b \<and> b \<le> length s \<and> re s a b)"
  proof
    assume "\<exists>a \<in> {0..<Suc (length s)}. \<exists>b \<in> {a..<Suc (length s)}. re s a b"
    then obtain a b where "a \<le> b" "b \<le> length s" "re s a b"
      by (auto simp: less_Suc_eq_le)
    then have "a \<le> b \<and> b \<le> length s \<and> re s a b" by simp
    then show "\<exists>a b. a \<le> b \<and> b \<le> length s \<and> re s a b" by (intro exI)
  next
    assume "\<exists>a b. a \<le> b \<and> b \<le> length s \<and> re s a b"
    then obtain a b where ab: "a \<le> b" "b \<le> length s" "re s a b" by blast
    then have "a \<in> {0..<Suc (length s)}" "b \<in> {a..<Suc (length s)}" by auto
    with ab(3) show "\<exists>a \<in> {0..<Suc (length s)}. \<exists>b \<in> {a..<Suc (length s)}. re s a b"
      by (intro bexI)
  qed
  finally show ?thesis .
qed


section \<open>The match modes\<close>



section \<open>One line\<close>

lemma match_values_first:
  "k < length vals \<Longrightarrow> matched_at p (i + k) (vals ! k) fv = Inr True \<Longrightarrow>
   \<forall>j<k. matched_at p (i + j) (vals ! j) fv = Inr False \<Longrightarrow>
   match_values p i vals fv = Inr (Some (vals ! k))"
proof (induction vals arbitrary: i k)
  case Nil
  then show ?case by simp
next
  case (Cons v vals)
  show ?case
  proof (cases k)
    case 0
    with Cons.prems show ?thesis by simp
  next
    case (Suc k')
    from Cons.prems(3) Suc have "matched_at p (i + 0) ((v # vals) ! 0) fv = Inr False"
      by blast
    then have head: "matched_at p i v fv = Inr False" by simp
    have "match_values p (Suc i) vals fv = Inr (Some (vals ! k'))"
    proof (rule Cons.IH)
      show "k' < length vals" using Cons.prems(1) Suc by simp
      show "matched_at p (Suc i + k') (vals ! k') fv = Inr True"
        using Cons.prems(2) Suc by simp
      show "\<forall>j<k'. matched_at p (Suc i + j) (vals ! j) fv = Inr False"
      proof (intro allI impI)
        fix j assume "j < k'"
        then have "Suc j < k" using Suc by simp
        with Cons.prems(3) have "matched_at p (i + Suc j) ((v # vals) ! Suc j) fv = Inr False"
          by blast
        then show "matched_at p (Suc i + j) (vals ! j) fv = Inr False" by simp
      qed
    qed
    with head Suc show ?thesis by simp
  qed
qed


lemma proc_write_other:
  "name \<noteq> outFileName p file val \<Longrightarrow> fs (proc_write p e file val line st) name = fs st name"
  by (simp add: proc_write_def Let_def split: write_result.splits)

lemma proc_write_frame:
  "workers (proc_write p e file val line st) = workers st"
  "pending (proc_write p e file val line st) = pending st"
  "sem (proc_write p e file val line st) = sem st"
  "wg (proc_write p e file val line st) = wg st"
  "inShutdown (proc_write p e file val line st) = inShutdown st"
  "shutdown_called (proc_write p e file val line st) = shutdown_called st"
  "ctx_done (proc_write p e file val line st) = ctx_done st"
  "done_closed (proc_write p e file val line st) = done_closed st"
  "shutdown_ret (proc_write p e file val line st) = shutdown_ret st"
  by (simp_all add: proc_write_def Let_def split: write_result.splits)

lemma process_line_frame:
  assumes "process_line p e file line st = Inr (incr, st')"
  shows "workers st' = workers st \<and> pending st' = pending st \<and> sem st' = sem st \<and> wg st' = wg st
     \<and> inShutdown st' = inShutdown st \<and> shutdown_called st' = shutdown_called st
     \<and> ctx_done st' = ctx_done st \<and> done_closed st' = done_closed st \<and> shutdown_ret st' = shutdown_ret st"
  using assms
  by (auto simp: process_line_def Let_def proc_write_frame split: if_splits sum.splits option.splits)

lemma process_line_skip:
  "line = [] \<or> ToString (Get e line (Field p)) = [] \<Longrightarrow> process_line p e file line st = Inr (False, st)"
  by (auto simp: process_line_def)

text \<open>
  C3.  When candidate \<open>k\<close> is the first one, in configured order, that matches the
  field value of a line (later candidates may match as well), the line is handed to
  the sink once, for candidate \<open>k\<close>: no file but the one of candidate \<open>k\<close> changes, and
  when the open and the write succeed that file gains the line and a newline.
\<close>

theorem first_candidate_wins:
  assumes "line \<noteq> []" and "ToString (Get e line (Field p)) = fieldVal" and "fieldVal \<noteq> []"
    and "k < length (Values p)"
    and "matched_at p k (Values p ! k) fieldVal = Inr True"
    and "\<forall>i<k. matched_at p i (Values p ! i) fieldVal = Inr False"
  shows "process_line p e file line st = Inr (True, proc_write p e file (Values p ! k) line st)
     \<and> (\<forall>name. name \<noteq> outFileName p file (Values p ! k) \<longrightarrow>
           fs (proc_write p e file (Values p ! k) line st) name = fs st name)
     \<and> (\<not> open_out_err e (fs st) (outFileName p file (Values p ! k)) \<and>
        write_out e (fs st) (outFileName p file (Values p ! k)) (line @ [newline]) = WriteOk \<longrightarrow>
           fs (proc_write p e file (Values p ! k) line st) (outFileName p file (Values p ! k)) =
             Some ((case fs st (outFileName p file (Values p ! k)) of None \<Rightarrow> [] | Some c \<Rightarrow> c)
                   @ line @ [newline]))"
proof -
  have "match_values p 0 (Values p) fieldVal = Inr (Some (Values p ! k))"
    using assms(4-6) by (intro match_values_first) simp_all
  then have "process_line p e file line st = Inr (True, proc_write p e file (Values p ! k) line st)"
    using assms(1-3) by (simp add: process_line_def)
  moreover have "\<not> open_out_err e (fs st) (outFileName p file (Values p ! k)) \<and>
        write_out e (fs st) (outFileName p file (Values p ! k)) (line @ [newline]) = WriteOk \<longrightarrow>
           fs (proc_write p e file (Values p ! k) line st) (outFileName p file (Values p ! k)) =
             Some ((case fs st (outFileName p file (Values p ! k)) of None \<Rightarrow> [] | Some c \<Rightarrow> c)
                   @ line @ [newline])"
    by (simp add: proc_write_def Let_def)
  ultimately show ?thesis by (simp add: proc_write_other)
qed

theorem first_candidate_wins_witness:
  "matched_at two_proc 0 ''wall'' ''wallstreetbets'' = Inr True
   \<and> matched_at two_proc 1 ''street'' ''wallstreetbets'' = Inr True
   \<and> process_line two_proc ex_env ''in/RS_2020-01.zst'' ex_line1 (serve_init [] Map.empty []) =
       Inr (True, proc_write two_proc ex_env ''in/RS_2020-01.zst'' ''wall'' ex_line1 (serve_init [] Map.empty []))
   \<and> fs (proc_write two_proc ex_env ''in/RS_2020-01.zst'' ''wall'' ex_line1 (serve_init [] Map.empty []))
        ''out/RS_2020-01_wall.ndjson'' = Some (ex_line1 @ [newline])
   \<and> fs (proc_write two_proc ex_env ''in/RS_2020-01.zst'' ''wall'' ex_line1 (serve_init [] Map.empty []))
        ''out/RS_2020-01_street.ndjson'' = None"
proof -
  have vals: "Values two_proc = [''wall'', ''street'']"
    by (simp add: two_proc_def)
  have h1: "ex_line1 \<noteq> []" by (simp add: ex_line1_def)
  have h2: "ToString (Get ex_env ex_line1 (Field two_proc)) = ''wallstreetbets''" by code_simp
  have h3: "''wallstreetbets'' \<noteq> []" by simp
  have h4: "0 < length (Values two_proc)" by (simp add: vals)
  have h5: "matched_at two_proc 0 (Values two_proc ! 0) ''wallstreetbets'' = Inr True" by code_simp
  have h6: "\<forall>i<0. matched_at two_proc i (Values two_proc ! i) ''wallstreetbets'' = Inr False" by simp
  have second: "matched_at two_proc 1 ''street'' ''wallstreetbets'' = Inr True" by code_simp
  have n1: "outFileName two_proc ''in/RS_2020-01.zst'' ''wall'' = ''out/RS_2020-01_wall.ndjson''"
    by code_simp
  have ok: "\<not> open_out_err ex_env (fs (serve_init [] Map.empty [])) ''out/RS_2020-01_wall.ndjson''"
    "write_out ex_env (fs (serve_init [] Map.empty [])) ''out/RS_2020-01_wall.ndjson'' (ex_line1 @ [newline]) = WriteOk"
    by (simp_all add: ex_env_def)
  have emp: "fs (serve_init [] Map.empty []) = Map.empty" by (simp add: serve_init_def)
  note t = first_candidate_wins [OF h1 h2 h3 h4 h5 h6, of "''in/RS_2020-01.zst''"
      "serve_init [] Map.empty []"]
  from t h5 second ok show ?thesis
    by (simp add: vals n1 emp)
qed

text \<open>
  C5.  A zero-length line, and a line whose field is absent (the lookup is invalid) or
  empty, leaves the state as it is and reaches no \<^verbatim>\<open>bar.IncrBy\<close>: no candidate is
  tested (also where testing the first candidate would panic), nothing is written or
  logged, and the worker goes on to scan the next line.
\<close>

theorem empty_field_never_matched:
  assumes "line = [] \<or> Get e line (Field p) = InvalidAny \<or> ToString (Get e line (Field p)) = []"
  shows "process_line p e file line st = Inr (False, st)
     \<and> match_values (p\<lparr>ValuesRegex := [], MatchMode := ''regex''\<rparr>) 0 (val # vals) fieldVal
         = Inl PanicIndexOutOfRange
     \<and> process_line (p\<lparr>Values := val # vals, ValuesRegex := [], MatchMode := ''regex''\<rparr>) e file line st
         = Inr (False, st)
     \<and> (i < length (workers st) \<and> wpc (workers st ! i) = Matching line rest fin \<longrightarrow>
          fs (worker_step p e i st) = fs st \<and> logs (worker_step p e i st) = logs st
          \<and> workers (worker_step p e i st) = (workers st)[i := (workers st ! i)\<lparr>wpc := Scanning rest fin\<rparr>])"
proof -
  have skip: "line = [] \<or> ToString (Get e line (Field p)) = []"
    using assms by auto
  then have a: "process_line p e file line st = Inr (False, st)"
    by (rule process_line_skip)
  have b: "match_values (p\<lparr>ValuesRegex := [], MatchMode := ''regex''\<rparr>) 0 (val # vals) fieldVal
         = Inl PanicIndexOutOfRange"
    by (simp add: matched_at_def)
  have c: "process_line (p\<lparr>Values := val # vals, ValuesRegex := [], MatchMode := ''regex''\<rparr>) e file line st
         = Inr (False, st)"
    using skip by (intro process_line_skip) simp
  have d: "i < length (workers st) \<and> wpc (workers st ! i) = Matching line rest fin \<longrightarrow>
          fs (worker_step p e i st) = fs st \<and> logs (worker_step p e i st) = logs st
          \<and> workers (worker_step p e i st) = (workers st)[i := (workers st ! i)\<lparr>wpc := Scanning rest fin\<rparr>]"
    by (simp add: worker_step_def Let_def process_line_skip [OF skip])
  from a b c d show ?thesis by blast
qed

theorem empty_field_never_matched_witness:
  "Get ex_env ex_line1 ''author'' = InvalidAny
   \<and> process_line (ex_proc\<lparr>Field := ''author''\<rparr>) ex_env ''in/RS_2020-01.zst'' ex_line1
        (at_line ex_line1) = Inr (False, at_line ex_line1)
   \<and> fs (worker_step (ex_proc\<lparr>Field := ''author''\<rparr>) ex_env 0 (at_line ex_line1)) = Map.empty
   \<and> logs (worker_step (ex_proc\<lparr>Field := ''author''\<rparr>) ex_env 0 (at_line ex_line1)) = []
   \<and> map wpc (workers (worker_step (ex_proc\<lparr>Field := ''author''\<rparr>) ex_env 0 (at_line ex_line1)))
        = [Scanning [] AtEOF]"
proof -
  have g: "Get ex_env ex_line1 ''author'' = InvalidAny"
    by (simp add: ex_env_def ex_get_def)
  have h: "ex_line1 = [] \<or> Get ex_env ex_line1 (Field (ex_proc\<lparr>Field := ''author''\<rparr>)) = InvalidAny
     \<or> ToString (Get ex_env ex_line1 (Field (ex_proc\<lparr>Field := ''author''\<rparr>))) = []"
    using g by simp
  have w: "0 < length (workers (at_line ex_line1))
     \<and> wpc (workers (at_line ex_line1) ! 0) = Matching ex_line1 [] AtEOF"
    by (simp add: at_line_def)
  note t = empty_field_never_matched [OF h, of "''in/RS_2020-01.zst''" "at_line ex_line1" "''wall''" "[]"
      "''pics''" 0 "[]" AtEOF]
  from t w g show ?thesis
    by (simp add: at_line_def)
qed

section \<open>The sink\<close>

lemma ex_name: "outFileName ex_proc ''in/RS_2020-01.zst'' ''wallstreetbets'' = ''out/RS_2020-01_wallstreetbets.ndjson''"
  by code_simp

lemma ex_process_line1:
  assumes "Get e = ex_get"
  shows "process_line ex_proc e file ex_line1 st = Inr (True, proc_write ex_proc e file ''wallstreetbets'' ex_line1 st)"
proof -
  have f: "ToString (ex_get ex_line1 (Field ex_proc)) = ''wallstreetbets''" by code_simp
  have m: "match_values ex_proc 0 (Values ex_proc) ''wallstreetbets'' = Inr (Some ''wallstreetbets'')"
    by code_simp
  have n: "ex_line1 \<noteq> []" by (simp add: ex_line1_def)
  show ?thesis using n by (simp add: process_line_def assms f m)
qed




section \<open>The field of a line\<close>



section \<open>Steps of a worker\<close>

lemma filter_update_length:
  "i < length ws \<Longrightarrow>
     length (filter P (ws[i := w])) + (if P (ws ! i) then 1 else 0)
       = length (filter P ws) + (if P w then 1 else 0)"
proof (induction ws arbitrary: i)
  case Nil
  then show ?case by simp
next
  case (Cons a ws)
  show ?case
  proof (cases i)
    case 0
    then show ?thesis by simp
  next
    case (Suc j)
    with Cons.prems have "j < length ws" by simp
    from Cons.IH [OF this] Suc show ?thesis by simp
  qed
qed

lemma step_exited:
  "i < length (workers st) \<Longrightarrow> wpc (workers st ! i) = Exited oc \<Longrightarrow> worker_step p e i st = st"
  by (simp add: worker_step_def Let_def)

lemma step_out_of_range:
  "\<not> i < length (workers st) \<Longrightarrow> worker_step p e i st = st"
  by (simp add: worker_step_def)

lemma step_scan_end:
  "i < length (workers st) \<Longrightarrow> wpc (workers st ! i) = Scanning [] fin \<Longrightarrow>
     worker_step p e i st = finish i Completed [] st"
  by (simp add: worker_step_def Let_def)

lemma step_scan_shutdown:
  "i < length (workers st) \<Longrightarrow> wpc (workers st ! i) = Scanning (line # rest) fin \<Longrightarrow> inShutdown st \<Longrightarrow>
     worker_step p e i st =
       finish i AbortedByShutdown
         [Log LevelWarn ''skipping further processing of file'' (wfile (workers st ! i))] st"
  by (simp add: worker_step_def Let_def)

lemma step_scan_line:
  "i < length (workers st) \<Longrightarrow> wpc (workers st ! i) = Scanning (line # rest) fin \<Longrightarrow> \<not> inShutdown st \<Longrightarrow>
     worker_step p e i st =
       st\<lparr>workers := (workers st)[i := (workers st ! i)\<lparr>wpc := Matching line rest fin\<rparr>]\<rparr>"
  by (simp add: worker_step_def Let_def)

lemma step_match_panic:
  "i < length (workers st) \<Longrightarrow> wpc (workers st ! i) = Matching line rest fin \<Longrightarrow>
   process_line p e (wfile (workers st ! i)) line st = Inl pv \<Longrightarrow>
     worker_step p e i st = finish i AbortedByError [recovered pv] st"
  by (simp add: worker_step_def Let_def)

lemma step_match_done:
  "i < length (workers st) \<Longrightarrow> wpc (workers st ! i) = Matching line rest fin \<Longrightarrow>
   process_line p e (wfile (workers st ! i)) line st = Inr (incr, st') \<Longrightarrow>
     worker_step p e i st =
       st'\<lparr>workers := (workers st)[i := (workers st ! i)\<lparr>wpc := Scanning rest fin,
                                     bar := bar (workers st ! i) + (if incr then 512 else 0)\<rparr>]\<rparr>"
  using process_line_frame [of p e "wfile (workers st ! i)" line st incr st']
  by (simp add: worker_step_def Let_def)

lemma step_admitted_fail:
  assumes "i < length (workers st)" and "wpc (workers st ! i) = Admitted"
    and "stat_err (input_of e (wfile (workers st ! i))) \<or> open_err (input_of e (wfile (workers st ! i)))
         \<or> reader_err (input_of e (wfile (workers st ! i)))"
  shows "\<exists>msg. worker_step p e i st =
           finish i AbortedByError
             [Log LevelError msg (wfile (workers st ! i)), recovered (PanicError (wfile (workers st ! i)))] st"
  using assms by (auto simp: worker_step_def Let_def)

lemma step_admitted_ok:
  assumes "i < length (workers st)" and "wpc (workers st ! i) = Admitted"
    and "\<not> stat_err (input_of e (wfile (workers st ! i)))" "\<not> open_err (input_of e (wfile (workers st ! i)))"
     "\<not> reader_err (input_of e (wfile (workers st ! i)))"
    and "scan_lines maxTokenSize (read_err (input_of e (wfile (workers st ! i)))) []
           (content (input_of e (wfile (workers st ! i)))) = (toks, fin)"
  shows "worker_step p e i st =
           st\<lparr>workers := (workers st)[i := (workers st ! i)\<lparr>wpc := Scanning toks fin\<rparr>]\<rparr>"
  using assms by (simp add: worker_step_def Let_def)

text \<open>Every step of a worker is of one of three kinds.\<close>

lemma worker_step_kinds:
  "worker_step p e i st = st
   \<or> (i < length (workers st) \<and> \<not> exited (wpc (workers st ! i))
        \<and> (\<exists>oc es. worker_step p e i st = finish i oc es st))
   \<or> (i < length (workers st) \<and> \<not> exited (wpc (workers st ! i))
        \<and> (\<exists>st' w. worker_step p e i st = st'\<lparr>workers := (workers st)[i := w]\<rparr>
              \<and> \<not> exited (wpc w) \<and> released w = released (workers st ! i)
              \<and> wfile w = wfile (workers st ! i)
              \<and> (matching (wpc w) \<longrightarrow> \<not> inShutdown st)
              \<and> (\<not> matching (wpc (workers st ! i)) \<longrightarrow> fs st' = fs st)
              \<and> pending st' = pending st \<and> sem st' = sem st \<and> wg st' = wg st
              \<and> inShutdown st' = inShutdown st \<and> shutdown_called st' = shutdown_called st
              \<and> ctx_done st' = ctx_done st \<and> done_closed st' = done_closed st
              \<and> shutdown_ret st' = shutdown_ret st))"
proof (cases "i < length (workers st)")
  case False
  then show ?thesis by (simp add: step_out_of_range)
next
  case True
  show ?thesis
  proof (cases "wpc (workers st ! i)")
    case Admitted
    show ?thesis
    proof (cases "stat_err (input_of e (wfile (workers st ! i))) \<or> open_err (input_of e (wfile (workers st ! i)))
         \<or> reader_err (input_of e (wfile (workers st ! i)))")
      case bad: True
      from step_admitted_fail [OF True Admitted bad, of p] Admitted True show ?thesis by auto
    next
      case good: False
      obtain toks fin where sc: "scan_lines maxTokenSize (read_err (input_of e (wfile (workers st ! i)))) []
           (content (input_of e (wfile (workers st ! i)))) = (toks, fin)"
        by (cases "scan_lines maxTokenSize (read_err (input_of e (wfile (workers st ! i)))) []
           (content (input_of e (wfile (workers st ! i))))") auto
      from good have "worker_step p e i st =
           st\<lparr>workers := (workers st)[i := (workers st ! i)\<lparr>wpc := Scanning toks fin\<rparr>]\<rparr>"
        by (intro step_admitted_ok [OF True Admitted _ _ _ sc]) auto
      with Admitted True show ?thesis
        by (intro disjI2) (rule conjI, simp, rule conjI, simp, rule exI [of _ st],
             rule exI [of _ "(workers st ! i)\<lparr>wpc := Scanning toks fin\<rparr>"], simp)
    qed
  next
    case (Scanning toks fin)
    show ?thesis
    proof (cases toks)
      case Nil
      with step_scan_end [OF True, of fin p e] Scanning True show ?thesis by auto
    next
      case (Cons line rest)
      show ?thesis
      proof (cases "inShutdown st")
        case shut: True
        from step_scan_shutdown [OF True, of line rest fin p e] Scanning Cons shut True
        show ?thesis by auto
      next
        case run: False
        from step_scan_line [OF True, of line rest fin p e] Scanning Cons run
        have "worker_step p e i st =
           st\<lparr>workers := (workers st)[i := (workers st ! i)\<lparr>wpc := Matching line rest fin\<rparr>]\<rparr>"
          by simp
        with Scanning True run show ?thesis
          by (intro disjI2) (rule conjI, simp, rule conjI, simp, rule exI [of _ st],
             rule exI [of _ "(workers st ! i)\<lparr>wpc := Matching line rest fin\<rparr>"], simp)
      qed
    qed
  next
    case (Matching line rest fin)
    show ?thesis
    proof (cases "process_line p e (wfile (workers st ! i)) line st")
      case (Inl pv)
      from step_match_panic [OF True Matching Inl] Matching True show ?thesis by auto
    next
      case (Inr r)
      obtain incr st' where r: "r = (incr, st')" by (cases r) auto
      note fr = process_line_frame [OF Inr [unfolded r]]
      from step_match_done [OF True Matching Inr [unfolded r]]
      have "worker_step p e i st =
       st'\<lparr>workers := (workers st)[i := (workers st ! i)\<lparr>wpc := Scanning rest fin,
                                     bar := bar (workers st ! i) + (if incr then 512 else 0)\<rparr>]\<rparr>" .
      with Matching True fr show ?thesis
        by (intro disjI2) (rule conjI, simp, rule conjI, simp, rule exI [of _ st'],
             rule exI [of _ "(workers st ! i)\<lparr>wpc := Scanning rest fin,
                                     bar := bar (workers st ! i) + (if incr then 512 else 0)\<rparr>"], simp)
    qed
  next
    case (Exited oc)
    with step_exited [OF True] show ?thesis by simp
  qed
qed

section \<open>Runs of the example\<close>

lemma ex_scan:
  "scan_lines maxTokenSize False [] (ex_line1 @ newline # ex_line2 @ [newline]) = ([ex_line1, ex_line2], AtEOF)"
  by (simp add: ex_line1_def ex_line2_def maxTokenSize_def newline_def dropCR_def)

lemma ex_facts:
  "Threads ex_proc = 1"
  "input_of ex_env path = ex_input"
  "Get ex_env = ex_get"
  "open_out_err ex_env files name = False"
  "write_out ex_env files name data = WriteOk"
  "stat_err ex_input = False" "open_err ex_input = False" "reader_err ex_input = False"
  "read_err ex_input = False"
  "content ex_input = ex_line1 @ newline # ex_line2 @ [newline]"
  by (simp_all add: ex_proc_def ex_env_def ex_input_def)

lemma ex_process_line2:
  assumes "Get e = ex_get"
  shows "process_line ex_proc e file ex_line2 st = Inr (True, st)"
proof -
  have f: "ToString (ex_get ex_line2 (Field ex_proc)) = ''pics''" by code_simp
  have m: "match_values ex_proc 0 (Values ex_proc) ''pics'' = Inr None"
    by code_simp
  have n: "ex_line2 \<noteq> []" by (simp add: ex_line2_def)
  show ?thesis using n by (simp add: process_line_def assms f m)
qed

lemmas ex_eval = serve_init_def dispatch_def worker_step_def finish_def Let_def ex_facts ex_scan
  ex_process_line1 ex_process_line2 proc_write_def ex_name

lemma mid_line_eval:
  "mid_line =
     \<lparr>inShutdown = True, fs = Map.empty, logs = [], pending = [''in/RS_2020-02.zst''], sem = 1, wg = 1,
      workers = [\<lparr>wfile = ''in/RS_2020-01.zst'', wpc = Matching ex_line1 [ex_line2] AtEOF, bar = 0,
                  released = 0\<rparr>],
      shutdown_called = True, ctx_done = False, done_closed = False, shutdown_ret = None\<rparr>"
  by (simp add: mid_line_def ex_eval)

lemma after_eval:
  "run ex_proc ex_env [Step 0, Step 0, Dispatch, Step 1, Step 1, WaitReturns, ShutdownReturns True] mid_line =
     \<lparr>inShutdown = True,
      fs = [''out/RS_2020-01_wallstreetbets.ndjson'' \<mapsto> ex_line1 @ [newline]],
      logs = [Log LevelWarn ''skipping further processing of file'' ''in/RS_2020-01.zst'',
              Log LevelWarn ''skipping further processing of file'' ''in/RS_2020-02.zst''],
      pending = [], sem = 0, wg = 0,
      workers = [\<lparr>wfile = ''in/RS_2020-01.zst'', wpc = Exited AbortedByShutdown, bar = 512,
                  released = 1\<rparr>,
                 \<lparr>wfile = ''in/RS_2020-02.zst'', wpc = Exited AbortedByShutdown, bar = 0,
                  released = 1\<rparr>],
      shutdown_called = True, ctx_done = False, done_closed = True, shutdown_ret = Some None\<rparr>"
  by (simp add: mid_line_eval ex_eval shutdown_select_def)

lemma bad_facts:
  "input_of bad_env path = ex_input\<lparr>stat_err := True\<rparr>"
  "stat_err (ex_input\<lparr>stat_err := True\<rparr>)"
  by (simp_all add: bad_env_def)

lemma scan_too_long:
  "newline \<notin> set l \<Longrightarrow> m \<le> length acc + length l \<Longrightarrow>
     scan_lines m rerr acc (l @ newline # rest) = ([], TooLong)"
  by (induction l arbitrary: acc) auto

lemma long_facts:
  "input_of long_env path = ex_input\<lparr>content := long_line @ newline # ex_line1 @ [newline]\<rparr>"
  by (simp add: long_env_def)

lemma long_scan:
  "scan_lines maxTokenSize False [] (long_line @ newline # ex_line1 @ [newline]) = ([], TooLong)"
  by (rule scan_too_long) (simp_all add: long_line_def newline_def)

section \<open>Admission\<close>

lemma list_all_update:
  "list_all P ws \<Longrightarrow> P w \<Longrightarrow> list_all P (ws[i := w])"
  by (auto simp: list_all_iff dest: set_update_subset_insert [THEN subsetD])

lemma active_finish:
  assumes "i < length (workers st)" and "\<not> exited (wpc (workers st ! i))"
  shows "active (finish i oc es st) + 1 = active st"
  using filter_update_length [OF assms(1), of "\<lambda>w. \<not> exited (wpc w)"
      "(workers st ! i)\<lparr>wpc := Exited oc, released := released (workers st ! i) + 1\<rparr>"] assms(2)
  by (simp add: active_def finish_def)

lemma active_keep:
  assumes "i < length (workers st)" and "\<not> exited (wpc (workers st ! i))" and "\<not> exited (wpc w)"
  shows "active (st'\<lparr>workers := (workers st)[i := w]\<rparr>) = active st"
  using filter_update_length [OF assms(1), of "\<lambda>w. \<not> exited (wpc w)" w] assms(2,3)
  by (simp add: active_def)

lemma slots_finish:
  assumes "slots_ok p st" and "i < length (workers st)" and "\<not> exited (wpc (workers st ! i))"
  shows "slots_ok p (finish i oc es st)"
proof -
  from assms(1) have r: "list_all released_once (workers st)"
    by (simp add: slots_ok_def)
  with assms(2) have "released (workers st ! i) = (if exited (wpc (workers st ! i)) then 1 else 0)"
    by (simp add: list_all_length released_once_def)
  with assms(3) have r0: "released (workers st ! i) = 0" by simp
  have "list_all released_once
          ((workers st)[i := (workers st ! i)\<lparr>wpc := Exited oc, released := released (workers st ! i) + 1\<rparr>])"
    using r r0 by (intro list_all_update) (simp_all add: released_once_def)
  moreover have "workers (finish i oc es st) =
     (workers st)[i := (workers st ! i)\<lparr>wpc := Exited oc, released := released (workers st ! i) + 1\<rparr>]"
    "sem (finish i oc es st) = sem st - 1" "wg (finish i oc es st) = wg st - 1"
    by (simp_all add: finish_def)
  ultimately show ?thesis
    using assms(1) active_finish [OF assms(2,3), of oc es]
    by (simp add: slots_ok_def)
qed

lemma slots_worker_step:
  assumes "slots_ok p st"
  shows "slots_ok p (worker_step p e i st)"
  using worker_step_kinds [of p e i st]
proof (elim disjE conjE exE)
  assume "worker_step p e i st = st"
  with assms show ?thesis by simp
next
  fix oc es
  assume "i < length (workers st)" "\<not> exited (wpc (workers st ! i))"
    "worker_step p e i st = finish i oc es st"
  with assms show ?thesis by (simp add: slots_finish)
next
  fix st' w
  assume a: "i < length (workers st)" "\<not> exited (wpc (workers st ! i))"
    "worker_step p e i st = st'\<lparr>workers := (workers st)[i := w]\<rparr>"
    "\<not> exited (wpc w)" "released w = released (workers st ! i)"
    "sem st' = sem st" "wg st' = wg st"
  from assms have r: "list_all released_once (workers st)"
    by (simp add: slots_ok_def)
  with a(1) have "released (workers st ! i) = (if exited (wpc (workers st ! i)) then 1 else 0)"
    by (simp add: list_all_length released_once_def)
  with a(2,4,5) have "released_once w" by (simp add: released_once_def)
  with r have "list_all released_once ((workers st)[i := w])"
    by (rule list_all_update)
  with assms a active_keep [OF a(1,2,4), of st'] show ?thesis
    by (simp add: slots_ok_def)
qed

lemma slots_dispatch:
  assumes "slots_ok p st"
  shows "slots_ok p (dispatch p st)"
  using assms by (auto simp: dispatch_def slots_ok_def active_def released_once_def split: list.splits)

lemma slots_exec:
  "slots_ok p st \<Longrightarrow> slots_ok p (exec p e a st)"
proof (cases a)
  case Dispatch
  assume "slots_ok p st"
  with Dispatch show ?thesis by (simp add: slots_dispatch)
next
  case (Step i)
  assume "slots_ok p st"
  with Step show ?thesis by (simp add: slots_worker_step)
next
  case CallShutdown
  assume "slots_ok p st"
  with CallShutdown show ?thesis by (simp add: slots_ok_def active_def)
next
  case WaitReturns
  assume "slots_ok p st"
  with WaitReturns show ?thesis by (simp add: slots_ok_def active_def)
next
  case DeadlineFires
  assume "slots_ok p st"
  with DeadlineFires show ?thesis by (simp add: slots_ok_def active_def)
next
  case (ShutdownReturns b)
  assume "slots_ok p st"
  with ShutdownReturns show ?thesis by (simp add: slots_ok_def active_def shutdown_select_def)
qed

lemma slots_run:
  "slots_ok p st \<Longrightarrow> slots_ok p (run p e sched st)"
  by (induction sched arbitrary: st) (simp_all add: slots_exec)

lemma slots_init: "slots_ok p (serve_init f out lg)"
  by (simp add: slots_ok_def serve_init_def active_def)

text \<open>
  C6.  With a thread count of at least one, in every state that \<^verbatim>\<open>Serve\<close> reaches under
  any schedule, the workers that have been admitted and have not exited are at most
  the thread count; they are exactly the slots held in the semaphore; and each
  worker has released its slot once if it has exited and not at all otherwise.
\<close>

theorem at_most_N_active:
  assumes "1 \<le> Threads p"
  shows "active (run p e sched (serve_init f out lg)) \<le> nat (Threads p)
     \<and> sem (run p e sched (serve_init f out lg)) = int (active (run p e sched (serve_init f out lg)))
     \<and> list_all released_once
          (workers (run p e sched (serve_init f out lg)))"
proof -
  have "slots_ok p (run p e sched (serve_init f out lg))"
    by (intro slots_run slots_init)
  with assms show ?thesis by (auto simp: slots_ok_def)
qed

theorem at_most_N_active_witness:
  "1 \<le> Threads ex_proc \<and> nat (Threads ex_proc) = 1
   \<and> active (run ex_proc ex_env [Dispatch, Dispatch]
        (serve_init [''in/RS_2020-01.zst'', ''in/RS_2020-02.zst''] Map.empty [])) = 1
   \<and> sem (run ex_proc ex_env [Dispatch, Dispatch]
        (serve_init [''in/RS_2020-01.zst'', ''in/RS_2020-02.zst''] Map.empty [])) = 1
   \<and> pending (run ex_proc ex_env [Dispatch, Dispatch]
        (serve_init [''in/RS_2020-01.zst'', ''in/RS_2020-02.zst''] Map.empty []))
      = [''in/RS_2020-02.zst'']"
proof -
  have h: "1 \<le> Threads ex_proc" by (simp add: ex_facts)
  note t = at_most_N_active [OF h, of ex_env "[Dispatch, Dispatch]"
      "[''in/RS_2020-01.zst'', ''in/RS_2020-02.zst'']" Map.empty "[]"]
  have p: "pending (run ex_proc ex_env [Dispatch, Dispatch]
        (serve_init [''in/RS_2020-01.zst'', ''in/RS_2020-02.zst''] Map.empty []))
      = [''in/RS_2020-02.zst'']"
    and a: "1 \<le> active (run ex_proc ex_env [Dispatch, Dispatch]
        (serve_init [''in/RS_2020-01.zst'', ''in/RS_2020-02.zst''] Map.empty []))"
    by (simp_all add: ex_eval active_def)
  from t a h p show ?thesis by (simp add: ex_facts)
qed

section \<open>Failures of one file\<close>

lemma files_dispatch: "files_ok f st \<Longrightarrow> files_ok f (dispatch p st)"
  by (auto simp: files_ok_def dispatch_def split: list.splits)

lemma map_update_same:
  "i < length ws \<Longrightarrow> (map g ws)[i := g (ws ! i)] = map g ws"
  by (simp add: list_update_same_conv)

lemma files_finish:
  "i < length (workers st) \<Longrightarrow> files_ok f (finish i oc es st) = files_ok f st"
  by (simp add: files_ok_def finish_def map_update map_update_same)

lemma files_worker_step:
  assumes "files_ok f st"
  shows "files_ok f (worker_step p e i st)"
  using worker_step_kinds [of p e i st]
proof (elim disjE conjE exE)
  assume "worker_step p e i st = st"
  with assms show ?thesis by simp
next
  fix oc es
  assume "i < length (workers st)" "worker_step p e i st = finish i oc es st"
  with assms show ?thesis by (simp add: files_finish)
next
  fix st' w
  assume a: "i < length (workers st)"
    "worker_step p e i st = st'\<lparr>workers := (workers st)[i := w]\<rparr>"
    "wfile w = wfile (workers st ! i)" "pending st' = pending st"
  have "map wfile ((workers st)[i := w]) = map wfile (workers st)"
    using a(1,3) by (simp add: map_update list_update_same_conv)
  with assms a show ?thesis by (simp add: files_ok_def)
qed

lemma files_exec: "files_ok f st \<Longrightarrow> files_ok f (exec p e a st)"
  by (cases a) (simp_all add: files_dispatch files_worker_step shutdown_select_def, simp_all add: files_ok_def)

lemma files_run: "files_ok f st \<Longrightarrow> files_ok f (run p e sched st)"
  by (induction sched arbitrary: st) (simp_all add: files_exec)

lemma files_init: "files_ok f (serve_init f out lg)"
  by (simp add: files_ok_def serve_init_def)

text \<open>A worker that has exited stays as it is.\<close>

lemma exited_worker_step:
  assumes "i < length (workers st)" and "exited (wpc (workers st ! i))"
  shows "i < length (workers (worker_step p e j st)) \<and> workers (worker_step p e j st) ! i = workers st ! i"
  using worker_step_kinds [of p e j st]
proof (elim disjE conjE exE)
  assume "worker_step p e j st = st"
  with assms show ?thesis by simp
next
  fix oc es
  assume a: "j < length (workers st)" "\<not> exited (wpc (workers st ! j))"
    "worker_step p e j st = finish j oc es st"
  with assms have "j \<noteq> i" by auto
  with assms a show ?thesis by (simp add: finish_def)
next
  fix st' w
  assume a: "j < length (workers st)" "\<not> exited (wpc (workers st ! j))"
    "worker_step p e j st = st'\<lparr>workers := (workers st)[j := w]\<rparr>"
  with assms have "j \<noteq> i" by auto
  with assms a show ?thesis by simp
qed

lemma exited_exec:
  assumes "i < length (workers st)" and "exited (wpc (workers st ! i))"
  shows "i < length (workers (exec p e a st)) \<and> workers (exec p e a st) ! i = workers st ! i"
proof (cases a)
  case Dispatch
  with assms show ?thesis
    by (auto simp: dispatch_def nth_append split: list.splits)
next
  case (Step j)
  with exited_worker_step [OF assms] show ?thesis by simp
qed (use assms in \<open>simp_all add: shutdown_select_def\<close>)

lemma exited_run:
  "i < length (workers st) \<Longrightarrow> exited (wpc (workers st ! i)) \<Longrightarrow>
     i < length (workers (run p e sched st)) \<and> workers (run p e sched st) ! i = workers st ! i"
proof (induction sched arbitrary: st)
  case Nil
  then show ?case by simp
next
  case (Cons a sched)
  from exited_exec [OF Cons.prems, of p e a]
  have 1: "i < length (workers (exec p e a st))" and 2: "workers (exec p e a st) ! i = workers st ! i"
    by simp_all
  from 2 Cons.prems(2) have 3: "exited (wpc (workers (exec p e a st) ! i))" by simp
  from Cons.IH [OF 1 3] 2 show ?case by simp
qed

text \<open>
  C7.  In a state that \<^verbatim>\<open>Serve\<close> reaches, the step of an admitted worker whose file
  cannot be stat'ed or opened, or whose decoder cannot be built, logs the error and
  the recovered panic, ends that worker as aborted by error, and releases its slot,
  which it had not released before; the other workers, the pending files, the
  output and the shutdown flag are as they were.  Whatever happens afterwards, the
  worker stays exited with one release, and the files of the workers and the pending
  files are still the files given to \<^verbatim>\<open>Serve\<close>, each once: the file is not queued again.
\<close>

theorem file_failure_isolated:
  assumes "st = run p e sched (serve_init f out lg)"
    and "i < length (workers st)" and "wpc (workers st ! i) = Admitted"
    and "stat_err (input_of e (wfile (workers st ! i))) \<or> open_err (input_of e (wfile (workers st ! i)))
         \<or> reader_err (input_of e (wfile (workers st ! i)))"
  shows "(\<exists>msg. logs (exec p e (Step i) st) =
             logs st @ [Log LevelError msg (wfile (workers st ! i)),
                        recovered (PanicError (wfile (workers st ! i)))])
     \<and> wpc (workers (exec p e (Step i) st) ! i) = Exited AbortedByError
     \<and> released (workers st ! i) = 0
     \<and> released (workers (exec p e (Step i) st) ! i) = 1
     \<and> sem (exec p e (Step i) st) = sem st - 1
     \<and> length (workers (exec p e (Step i) st)) = length (workers st)
     \<and> (\<forall>j < length (workers st). j \<noteq> i \<longrightarrow> workers (exec p e (Step i) st) ! j = workers st ! j)
     \<and> pending (exec p e (Step i) st) = pending st
     \<and> fs (exec p e (Step i) st) = fs st
     \<and> inShutdown (exec p e (Step i) st) = inShutdown st
     \<and> i < length (workers (run p e sched' (exec p e (Step i) st)))
     \<and> wpc (workers (run p e sched' (exec p e (Step i) st)) ! i) = Exited AbortedByError
     \<and> released (workers (run p e sched' (exec p e (Step i) st)) ! i) = 1
     \<and> map wfile (workers (run p e sched' (exec p e (Step i) st)))
          @ pending (run p e sched' (exec p e (Step i) st)) = f"
proof -
  let ?file = "wfile (workers st ! i)"
  let ?st' = "exec p e (Step i) st"
  from step_admitted_fail [OF assms(2,3,4), of p]
  obtain msg where fin: "worker_step p e i st =
      finish i AbortedByError [Log LevelError msg ?file, recovered (PanicError ?file)] st"
    by blast
  have "slots_ok p st" unfolding assms(1) by (intro slots_run slots_init)
  then have "released_once (workers st ! i)"
    using assms(2) by (simp add: slots_ok_def list_all_length)
  with assms(3) have r0: "released (workers st ! i) = 0"
    by (simp add: released_once_def)
  have now: "wpc (workers ?st' ! i) = Exited AbortedByError" "released (workers ?st' ! i) = 1"
    "length (workers ?st') = length (workers st)"
    using assms(2) r0 by (simp_all add: fin finish_def)
  have lg: "\<exists>msg. logs ?st' = logs st @ [Log LevelError msg ?file, recovered (PanicError ?file)]"
    by (simp add: fin finish_def)
  have frame: "sem ?st' = sem st - 1" "pending ?st' = pending st" "fs ?st' = fs st"
    "inShutdown ?st' = inShutdown st"
    by (simp_all add: fin finish_def)
  have others: "\<forall>j < length (workers st). j \<noteq> i \<longrightarrow> workers ?st' ! j = workers st ! j"
    by (simp add: fin finish_def)
  have ex: "i < length (workers ?st')" "exited (wpc (workers ?st' ! i))"
    using now assms(2) by simp_all
  from exited_run [OF ex, of p e sched'] now
  have later: "i < length (workers (run p e sched' ?st'))"
    "wpc (workers (run p e sched' ?st') ! i) = Exited AbortedByError"
    "released (workers (run p e sched' ?st') ! i) = 1"
    by simp_all
  have "files_ok f st" unfolding assms(1) by (intro files_run files_init)
  then have "files_ok f (run p e sched' ?st')" by (intro files_run files_exec)
  then have acc: "map wfile (workers (run p e sched' ?st')) @ pending (run p e sched' ?st') = f"
    by (simp add: files_ok_def)
  from lg now r0 frame others later acc show ?thesis by blast
qed

theorem file_failure_isolated_witness:
  "wpc (workers (run ex_proc bad_env [Dispatch]
          (serve_init [''in/RS_2020-01.zst'', ''in/RS_2020-02.zst''] Map.empty [])) ! 0) = Admitted
   \<and> stat_err (input_of bad_env ''in/RS_2020-01.zst'')
   \<and> logs (run ex_proc bad_env [Dispatch, Step 0]
          (serve_init [''in/RS_2020-01.zst'', ''in/RS_2020-02.zst''] Map.empty []))
      = [Log LevelError ''failed to get file information'' ''in/RS_2020-01.zst'',
         Log LevelError ''panic recovered in worker'' ''in/RS_2020-01.zst'']
   \<and> sem (run ex_proc bad_env [Dispatch, Step 0]
          (serve_init [''in/RS_2020-01.zst'', ''in/RS_2020-02.zst''] Map.empty [])) = 0
   \<and> map wpc (workers (run ex_proc bad_env [Dispatch, Step 0, Step 0, Dispatch]
          (serve_init [''in/RS_2020-01.zst'', ''in/RS_2020-02.zst''] Map.empty [])))
      = [Exited AbortedByError, Admitted]
   \<and> map released (workers (run ex_proc bad_env [Dispatch, Step 0, Step 0, Dispatch]
          (serve_init [''in/RS_2020-01.zst'', ''in/RS_2020-02.zst''] Map.empty [])))
      = [1, 0]"
proof -
  let ?init = "serve_init [''in/RS_2020-01.zst'', ''in/RS_2020-02.zst''] Map.empty []"
  let ?st = "run ex_proc bad_env [Dispatch] ?init"
  have st: "?st = \<lparr>inShutdown = False, fs = Map.empty, logs = [], pending = [''in/RS_2020-02.zst''],
      sem = 1, wg = 1,
      workers = [\<lparr>wfile = ''in/RS_2020-01.zst'', wpc = Admitted, bar = 0, released = 0\<rparr>],
      shutdown_called = False, ctx_done = False, done_closed = False, shutdown_ret = None\<rparr>"
    by (simp add: serve_init_def dispatch_def ex_facts)
  have h2: "0 < length (workers ?st)" and h3: "wpc (workers ?st ! 0) = Admitted"
    and h4: "stat_err (input_of bad_env (wfile (workers ?st ! 0)))
         \<or> open_err (input_of bad_env (wfile (workers ?st ! 0)))
         \<or> reader_err (input_of bad_env (wfile (workers ?st ! 0)))"
    unfolding st by (simp_all add: bad_facts)
  note t = file_failure_isolated [OF refl h2 h3 h4, of "[Step 0, Dispatch]"]
  have lg: "logs (run ex_proc bad_env [Dispatch, Step 0] ?init)
      = [Log LevelError ''failed to get file information'' ''in/RS_2020-01.zst'',
         Log LevelError ''panic recovered in worker'' ''in/RS_2020-01.zst'']"
    and sm: "sem (run ex_proc bad_env [Dispatch, Step 0] ?init) = 0"
    by (simp_all add: serve_init_def dispatch_def ex_facts worker_step_def finish_def Let_def bad_facts
          recovered_def panic_text_def)
  have fin: "workers (run ex_proc bad_env [Dispatch, Step 0, Step 0, Dispatch] ?init)
      = [\<lparr>wfile = ''in/RS_2020-01.zst'', wpc = Exited AbortedByError, bar = 0, released = 1\<rparr>,
         \<lparr>wfile = ''in/RS_2020-02.zst'', wpc = Admitted, bar = 0, released = 0\<rparr>]"
    by (simp add: serve_init_def dispatch_def ex_facts worker_step_def finish_def Let_def bad_facts)
  from t h3 lg sm fin show ?thesis by (simp add: bad_facts)
qed

section \<open>Shutdown\<close>

lemma finish_frame:
  "inShutdown (finish i oc es st) = inShutdown st"
  "fs (finish i oc es st) = fs st"
  "pending (finish i oc es st) = pending st"
  "shutdown_called (finish i oc es st) = shutdown_called st"
  "ctx_done (finish i oc es st) = ctx_done st"
  "done_closed (finish i oc es st) = done_closed st"
  "shutdown_ret (finish i oc es st) = shutdown_ret st"
  "length (workers (finish i oc es st)) = length (workers st)"
  by (simp_all add: finish_def)

lemma flag_exec: "inShutdown st \<Longrightarrow> inShutdown (exec p e a st)"
proof (cases a)
  case (Step i)
  assume "inShutdown st"
  with worker_step_kinds [of p e i st] Step show ?thesis
    by (auto simp: finish_frame)
qed (auto simp: dispatch_def shutdown_select_def split: list.splits)

lemma flag_run: "inShutdown st \<Longrightarrow> inShutdown (run p e sched st)"
  by (induction sched arbitrary: st) (simp_all add: flag_exec)

lemma matching_worker_step:
  assumes "inShutdown st" and "i < length (workers (worker_step p e j st))"
    and "matching (wpc (workers (worker_step p e j st) ! i))"
  shows "i < length (workers st) \<and> wpc (workers st ! i) = wpc (workers (worker_step p e j st) ! i)"
  using worker_step_kinds [of p e j st]
proof (elim disjE conjE exE)
  assume "worker_step p e j st = st"
  with assms show ?thesis by simp
next
  fix oc es
  assume a: "j < length (workers st)" "worker_step p e j st = finish j oc es st"
  with assms(2) have i: "i < length (workers st)" by (simp add: finish_frame)
  have "i \<noteq> j"
  proof
    assume "i = j"
    with a i assms(3) show False by (simp add: finish_def)
  qed
  with a i show ?thesis by (simp add: finish_def)
next
  fix st' w
  assume a: "j < length (workers st)" "worker_step p e j st = st'\<lparr>workers := (workers st)[j := w]\<rparr>"
    "matching (wpc w) \<longrightarrow> \<not> inShutdown st"
  with assms(2) have i: "i < length (workers st)" by simp
  have "i \<noteq> j"
  proof
    assume "i = j"
    with a i assms(1,3) show False by simp
  qed
  with a i show ?thesis by simp
qed

lemma matching_exec:
  assumes "inShutdown st" and "i < length (workers (exec p e a st))"
    and "matching (wpc (workers (exec p e a st) ! i))"
  shows "i < length (workers st) \<and> wpc (workers st ! i) = wpc (workers (exec p e a st) ! i)"
proof (cases a)
  case Dispatch
  with assms(2,3) show ?thesis
    by (auto simp: dispatch_def nth_append less_Suc_eq split: list.splits if_splits)
next
  case (Step j)
  with matching_worker_step [OF assms(1), of i p e j] assms(2,3) show ?thesis by simp
qed (use assms in \<open>simp_all add: shutdown_select_def split: if_splits\<close>)

lemma matching_run:
  "inShutdown st \<Longrightarrow> i < length (workers (run p e sched st)) \<Longrightarrow>
   matching (wpc (workers (run p e sched st) ! i)) \<Longrightarrow>
     i < length (workers st) \<and> wpc (workers st ! i) = wpc (workers (run p e sched st) ! i)"
proof (induction sched arbitrary: st)
  case Nil
  then show ?case by simp
next
  case (Cons a sched)
  from Cons.prems(1) have f: "inShutdown (exec p e a st)" by (rule flag_exec)
  from Cons.IH [OF f] Cons.prems(2,3)
  have 1: "i < length (workers (exec p e a st))"
    and 2: "wpc (workers (exec p e a st) ! i) = wpc (workers (run p e (a # sched) st) ! i)"
    by simp_all
  from 2 Cons.prems(3) have "matching (wpc (workers (exec p e a st) ! i))" by simp
  from matching_exec [OF Cons.prems(1) 1 this] 2 show ?case by simp
qed

lemma fs_exec_cause:
  assumes "fs (exec p e a st) \<noteq> fs st"
  shows "\<exists>i. a = Step i \<and> i < length (workers st) \<and> matching (wpc (workers st ! i))"
proof (cases a)
  case (Step i)
  from worker_step_kinds [of p e i st] assms Step
  have "i < length (workers st) \<and> matching (wpc (workers st ! i))"
    by (auto simp: finish_frame)
  with Step show ?thesis by simp
qed (use assms in \<open>auto simp: dispatch_def shutdown_select_def split: list.splits if_splits\<close>)

lemma quiet_exec:
  assumes "inShutdown st" and "\<forall>w \<in> set (workers st). \<not> matching (wpc w)"
  shows "fs (exec p e a st) = fs st \<and> (\<forall>w \<in> set (workers (exec p e a st)). \<not> matching (wpc w))"
proof
  show "fs (exec p e a st) = fs st"
  proof (rule ccontr)
    assume "fs (exec p e a st) \<noteq> fs st"
    from fs_exec_cause [OF this] assms(2) show False by auto
  qed
next
  show "\<forall>w \<in> set (workers (exec p e a st)). \<not> matching (wpc w)"
  proof
    fix w assume "w \<in> set (workers (exec p e a st))"
    then obtain i where i: "i < length (workers (exec p e a st))" "workers (exec p e a st) ! i = w"
      by (auto simp: in_set_conv_nth)
    show "\<not> matching (wpc w)"
    proof
      assume "matching (wpc w)"
      with i have "matching (wpc (workers (exec p e a st) ! i))" by simp
      from matching_exec [OF assms(1) i(1) this] this
      have "i < length (workers st)" "matching (wpc (workers st ! i))" by simp_all
      with assms(2) show False by auto
    qed
  qed
qed

lemma quiet_run:
  "inShutdown st \<Longrightarrow> \<forall>w \<in> set (workers st). \<not> matching (wpc w) \<Longrightarrow> fs (run p e sched st) = fs st"
proof (induction sched arbitrary: st)
  case Nil
  then show ?case by simp
next
  case (Cons a sched)
  from quiet_exec [OF Cons.prems, of p e a] flag_exec [OF Cons.prems(1), of p e a]
  have "fs (run p e sched (exec p e a st)) = fs (exec p e a st)" "fs (exec p e a st) = fs st"
    by (simp_all add: Cons.IH)
  then show ?case by simp
qed

lemma done_exec_cause:
  assumes "\<not> done_closed st" and "done_closed (exec p e a st)"
  shows "a = WaitReturns \<and> wg st = 0"
proof (cases a)
  case (Step i)
  from worker_step_kinds [of p e i st] assms Step show ?thesis
    by (auto simp: finish_frame)
qed (use assms in \<open>auto simp: dispatch_def shutdown_select_def split: list.splits if_splits\<close>)

lemma ret_exec_cause:
  assumes "shutdown_ret st = None" and "shutdown_ret (exec p e a st) = Some r"
  shows "(r = None \<and> done_closed st) \<or> (r = Some DeadlineExceeded \<and> ctx_done st)"
proof (cases a)
  case (Step i)
  from worker_step_kinds [of p e i st] assms Step show ?thesis
    by (auto simp: finish_frame)
qed (use assms in \<open>auto simp: dispatch_def shutdown_select_def split: list.splits if_splits\<close>)

lemma idle_all_exited:
  assumes "active st = 0"
  shows "\<forall>w \<in> set (workers st). exited (wpc w)"
  using assms by (auto simp: active_def filter_empty_conv)

text \<open>
  C1, as it is stated, fails: \<^verbatim>\<open>Serve\<close> does not read the flag before it admits a file.
  After \<^verbatim>\<open>Shutdown\<close> has set the flag, with no worker admitted yet, the worker of the
  example file is admitted, opens the file and builds its scanner; its next step
  logs that it skips the further processing of the file.
\<close>

theorem shutdown_admits_counterexample:
  "inShutdown (run ex_proc ex_env [CallShutdown] (serve_init [''in/RS_2020-01.zst''] Map.empty []))
   \<and> workers (run ex_proc ex_env [CallShutdown] (serve_init [''in/RS_2020-01.zst''] Map.empty [])) = []
   \<and> workers (run ex_proc ex_env [CallShutdown, Dispatch, Step 0]
        (serve_init [''in/RS_2020-01.zst''] Map.empty []))
      = [\<lparr>wfile = ''in/RS_2020-01.zst'', wpc = Scanning [ex_line1, ex_line2] AtEOF, bar = 0,
          released = 0\<rparr>]
   \<and> logs (run ex_proc ex_env [CallShutdown, Dispatch, Step 0, Step 0]
        (serve_init [''in/RS_2020-01.zst''] Map.empty []))
      = [Log LevelWarn ''skipping further processing of file'' ''in/RS_2020-01.zst'']"
  by (simp add: ex_eval)

text \<open>
  C1, amended.  From a reached state with the flag set, under any further schedule:
  the flag stays set; a worker found in the middle of a line was in the middle of
  that same line when the flag was set (so no worker takes up another line, and a
  worker admitted later takes up none); if no worker was in the middle of a line the
  output never changes again, and a step changes the output only if it is the step of
  a worker in the middle of a line; a worker at the head of its loop with a line
  scanned exits as aborted by shutdown without writing.  \<^verbatim>\<open>done\<close> is closed only when
  all workers admitted so far have exited; the \<^verbatim>\<open>select\<close> returns \<^verbatim>\<open>nil\<close> when only \<^verbatim>\<open>done\<close>
  is ready and the deadline error when only the deadline is, and it returns nothing
  else.
\<close>

theorem shutdown_stops_lines:
  assumes "st = run p e before (serve_init f out lg)" and "inShutdown st"
  shows "inShutdown (run p e after st)
     \<and> (\<forall>i < length (workers (run p e after st)).
           matching (wpc (workers (run p e after st) ! i)) \<longrightarrow>
             i < length (workers st) \<and> wpc (workers (run p e after st) ! i) = wpc (workers st ! i))
     \<and> ((\<forall>w \<in> set (workers st). \<not> matching (wpc w)) \<longrightarrow> fs (run p e after st) = fs st)
     \<and> (fs (exec p e a st) \<noteq> fs st \<longrightarrow>
           (\<exists>i. a = Step i \<and> i < length (workers st) \<and> matching (wpc (workers st ! i))))
     \<and> (k < length (workers st) \<and> wpc (workers st ! k) = Scanning (line # rest) fin \<longrightarrow>
           wpc (workers (exec p e (Step k) st) ! k) = Exited AbortedByShutdown
           \<and> fs (exec p e (Step k) st) = fs st)
     \<and> (\<not> done_closed st \<and> done_closed (exec p e a st) \<longrightarrow>
           a = WaitReturns \<and> (\<forall>w \<in> set (workers st). exited (wpc w)))
     \<and> (shutdown_called st \<and> shutdown_ret st = None \<and> done_closed st \<and> \<not> ctx_done st \<longrightarrow>
           shutdown_ret (exec p e (ShutdownReturns b) st) = Some None)
     \<and> (shutdown_called st \<and> shutdown_ret st = None \<and> ctx_done st \<and> \<not> done_closed st \<longrightarrow>
           shutdown_ret (exec p e (ShutdownReturns b) st) = Some (Some DeadlineExceeded))
     \<and> (shutdown_ret st = None \<and> shutdown_ret (exec p e a st) = Some r \<longrightarrow>
           (r = None \<and> done_closed st) \<or> (r = Some DeadlineExceeded \<and> ctx_done st))"
proof (intro conjI)
  show "inShutdown (run p e after st)" using assms(2) by (rule flag_run)
  show "\<forall>i < length (workers (run p e after st)).
           matching (wpc (workers (run p e after st) ! i)) \<longrightarrow>
             i < length (workers st) \<and> wpc (workers (run p e after st) ! i) = wpc (workers st ! i)"
    using matching_run [OF assms(2), of _ p e after] by auto
  show "(\<forall>w \<in> set (workers st). \<not> matching (wpc w)) \<longrightarrow> fs (run p e after st) = fs st"
    using quiet_run [OF assms(2), of p e after] by blast
  show "fs (exec p e a st) \<noteq> fs st \<longrightarrow>
           (\<exists>i. a = Step i \<and> i < length (workers st) \<and> matching (wpc (workers st ! i)))"
    using fs_exec_cause [of p e a st] by blast
  show "k < length (workers st) \<and> wpc (workers st ! k) = Scanning (line # rest) fin \<longrightarrow>
           wpc (workers (exec p e (Step k) st) ! k) = Exited AbortedByShutdown
           \<and> fs (exec p e (Step k) st) = fs st"
  proof (intro impI, elim conjE)
    assume a: "k < length (workers st)" "wpc (workers st ! k) = Scanning (line # rest) fin"
    from step_scan_shutdown [OF a assms(2), of p e] a(1)
    show "wpc (workers (exec p e (Step k) st) ! k) = Exited AbortedByShutdown
           \<and> fs (exec p e (Step k) st) = fs st"
      by (simp add: finish_def)
  qed
  show "\<not> done_closed st \<and> done_closed (exec p e a st) \<longrightarrow>
           a = WaitReturns \<and> (\<forall>w \<in> set (workers st). exited (wpc w))"
  proof (intro impI, elim conjE)
    assume a: "\<not> done_closed st" "done_closed (exec p e a st)"
    from done_exec_cause [OF a] have w: "a = WaitReturns" "wg st = 0" by simp_all
    have "slots_ok p st" unfolding assms(1) by (intro slots_run slots_init)
    with w(2) have "active st = 0" by (simp add: slots_ok_def)
    with w(1) show "a = WaitReturns \<and> (\<forall>w \<in> set (workers st). exited (wpc w))"
      using idle_all_exited by blast
  qed
  show "shutdown_called st \<and> shutdown_ret st = None \<and> done_closed st \<and> \<not> ctx_done st \<longrightarrow>
           shutdown_ret (exec p e (ShutdownReturns b) st) = Some None"
    by (simp add: shutdown_select_def)
  show "shutdown_called st \<and> shutdown_ret st = None \<and> ctx_done st \<and> \<not> done_closed st \<longrightarrow>
           shutdown_ret (exec p e (ShutdownReturns b) st) = Some (Some DeadlineExceeded)"
    by (simp add: shutdown_select_def)
  show "shutdown_ret st = None \<and> shutdown_ret (exec p e a st) = Some r \<longrightarrow>
           (r = None \<and> done_closed st) \<or> (r = Some DeadlineExceeded \<and> ctx_done st)"
    using ret_exec_cause [of st p e a r] by blast
qed

theorem shutdown_stops_lines_witness:
  "inShutdown mid_line
   \<and> map wpc (workers mid_line) = [Matching ex_line1 [ex_line2] AtEOF]
   \<and> pending mid_line = [''in/RS_2020-02.zst'']
   \<and> inShutdown (run ex_proc ex_env
         [Step 0, Step 0, Dispatch, Step 1, Step 1, WaitReturns, ShutdownReturns True] mid_line)
   \<and> map wpc (workers (run ex_proc ex_env
         [Step 0, Step 0, Dispatch, Step 1, Step 1, WaitReturns, ShutdownReturns True] mid_line))
      = [Exited AbortedByShutdown, Exited AbortedByShutdown]
   \<and> fs (run ex_proc ex_env
         [Step 0, Step 0, Dispatch, Step 1, Step 1, WaitReturns, ShutdownReturns True] mid_line)
      = [''out/RS_2020-01_wallstreetbets.ndjson'' \<mapsto> ex_line1 @ [newline]]
   \<and> shutdown_ret (run ex_proc ex_env
         [Step 0, Step 0, Dispatch, Step 1, Step 1, WaitReturns, ShutdownReturns True] mid_line)
      = Some None
   \<and> shutdown_ret (exec ex_proc ex_env (ShutdownReturns True)
         (run ex_proc ex_env [CallShutdown, WaitReturns] (serve_init [] Map.empty []))) = Some None
   \<and> shutdown_ret (exec ex_proc ex_env (ShutdownReturns True)
         (run ex_proc ex_env [CallShutdown, DeadlineFires] (serve_init [] Map.empty [])))
      = Some (Some DeadlineExceeded)"
proof -
  let ?after = "[Step 0, Step 0, Dispatch, Step 1, Step 1, WaitReturns, ShutdownReturns True]"
  let ?done = "run ex_proc ex_env [CallShutdown, WaitReturns] (serve_init [] Map.empty [])"
  let ?late = "run ex_proc ex_env [CallShutdown, DeadlineFires] (serve_init [] Map.empty [])"
  have h: "inShutdown mid_line" by (simp add: mid_line_eval)
  have hd: "inShutdown ?done" and hl: "inShutdown ?late" by (simp_all add: serve_init_def)
  have d: "shutdown_called ?done \<and> shutdown_ret ?done = None \<and> done_closed ?done \<and> \<not> ctx_done ?done"
    by (simp add: serve_init_def)
  have l: "shutdown_called ?late \<and> shutdown_ret ?late = None \<and> ctx_done ?late \<and> \<not> done_closed ?late"
    by (simp add: serve_init_def)
  note t = shutdown_stops_lines [OF mid_line_def h, of ?after "Step 0" 0 ex_line1 "[ex_line2]" AtEOF
      True None]
  note td = shutdown_stops_lines [OF refl hd, of "[]" "ShutdownReturns True" 0 ex_line1 "[]" AtEOF
      True None]
  note tl = shutdown_stops_lines [OF refl hl, of "[]" "ShutdownReturns True" 0 ex_line1 "[]" AtEOF
      True None]
  have c1: "shutdown_ret (exec ex_proc ex_env (ShutdownReturns True) ?done) = Some None"
    using td d by blast
  have c2: "shutdown_ret (exec ex_proc ex_env (ShutdownReturns True) ?late) = Some (Some DeadlineExceeded)"
    using tl l by blast
  have c3: "inShutdown (run ex_proc ex_env ?after mid_line)"
    using t by blast
  have m: "map wpc (workers mid_line) = [Matching ex_line1 [ex_line2] AtEOF]"
    "pending mid_line = [''in/RS_2020-02.zst'']"
    unfolding mid_line_eval by simp_all
  have a: "map wpc (workers (run ex_proc ex_env ?after mid_line))
      = [Exited AbortedByShutdown, Exited AbortedByShutdown]"
    "fs (run ex_proc ex_env ?after mid_line)
      = [''out/RS_2020-01_wallstreetbets.ndjson'' \<mapsto> ex_line1 @ [newline]]"
    "shutdown_ret (run ex_proc ex_env ?after mid_line) = Some None"
    unfolding after_eval by simp_all
  from h m c3 a c1 c2 show ?thesis
    by (intro conjI) assumption+
qed

section \<open>A line beyond the scanner's limit\<close>

text \<open>
  C2.  An input whose first line has one byte more than the scanner's limit, followed
  by a record that matches: the scanner stops with \<^verbatim>\<open>ErrTooLong\<close> before any token,
  \<^verbatim>\<open>scanner.Scan()\<close> returns false, and the worker returns as at the end of a file.  It
  ends as completed; nothing is logged and nothing is written.
\<close>

theorem oversized_line_unreported:
  "length long_line = 512 * 2 ^ 20 + 1
   \<and> scan_lines maxTokenSize False [] (long_line @ newline # ex_line1 @ [newline]) = ([], TooLong)
   \<and> run ex_proc long_env [Dispatch, Step 0, Step 0]
       (serve_init [''in/RS_2020-01.zst''] Map.empty [])
     = \<lparr>inShutdown = False, fs = Map.empty, logs = [], pending = [], sem = 0, wg = 0,
        workers = [\<lparr>wfile = ''in/RS_2020-01.zst'', wpc = Exited Completed, bar = 0, released = 1\<rparr>],
        shutdown_called = False, ctx_done = False, done_closed = False, shutdown_ret = None\<rparr>"
proof -
  have "length long_line = 512 * 2 ^ 20 + 1"
    by (simp add: long_line_def maxTokenSize_def)
  moreover have "run ex_proc long_env [Dispatch, Step 0, Step 0]
       (serve_init [''in/RS_2020-01.zst''] Map.empty [])
     = \<lparr>inShutdown = False, fs = Map.empty, logs = [], pending = [], sem = 0, wg = 0,
        workers = [\<lparr>wfile = ''in/RS_2020-01.zst'', wpc = Exited Completed, bar = 0, released = 1\<rparr>],
        shutdown_called = False, ctx_done = False, done_closed = False, shutdown_ret = None\<rparr>"
    by (simp add: long_scan serve_init_def dispatch_def worker_step_def finish_def Let_def long_facts
          ex_facts)
  ultimately show ?thesis using long_scan by simp
qed

section \<open>Discovery\<close>

lemma walk_readable:
  "(\<forall>x \<in> set (entries path n). readable (snd x)) \<Longrightarrow>
     walk p path n acc =
       ((fst acc @ map fst (filter (eligible p) (entries path n)),
         snd acc @ map found_entry (filter (eligible p) (entries path n))), None)"
  "(\<forall>x \<in> set (entries_in dir ns). readable (snd x)) \<Longrightarrow>
     walk_names p dir ns acc =
       ((fst acc @ map fst (filter (eligible p) (entries_in dir ns)),
         snd acc @ map found_entry (filter (eligible p) (entries_in dir ns))), None)"
proof (induction p path n acc and p dir ns acc rule: walk_walk_names.induct)
  case (1 p path name err acc)
  then show ?case by simp
next
  case (2 p path name ty acc)
  then show ?case
    by (simp add: visit_def eligible_def selected_def found_entry_def)
next
  case (3 p path name err acc)
  then show ?case by simp
next
  case (4 p path name ns acc)
  then show ?case
    by (simp add: visit_def eligible_def)
next
  case (5 p dir acc)
  then show ?case by simp
next
  case (6 p dir n ns acc)
  from "6.prems" have r1: "\<forall>x \<in> set (entries (Join dir (node_name n)) n). readable (snd x)"
    and r2: "\<forall>x \<in> set (entries_in dir ns). readable (snd x)"
    by auto
  note w = "6.IH"(1) [OF r1]
  from "6.IH"(2) [OF w [symmetric] refl r2] w show ?case by simp
qed

lemma walk_error_kind:
  "snd (walk p path n acc) = Some err \<Longrightarrow> \<exists>t. err = PathError t"
  "snd (walk_names p dir ns acc) = Some err \<Longrightarrow> \<exists>t. err = PathError t"
proof (induction p path n acc and p dir ns acc rule: walk_walk_names.induct)
  case (6 p dir n ns acc)
  show ?case
  proof (cases "walk p (Join dir (node_name n)) n acc")
    case (Pair acc' r)
    show ?thesis
    proof (cases r)
      case None
      with Pair "6.prems" "6.IH"(2) [OF Pair [symmetric] None] show ?thesis by simp
    next
      case (Some e')
      with Pair "6.prems" "6.IH"(1) show ?thesis by simp
    qed
  qed
qed auto

lemma walk_unreadable:
  "(\<exists>x \<in> set (entries path n). \<not> readable (snd x)) \<Longrightarrow> snd (walk p path n acc) \<noteq> None"
  "(\<exists>x \<in> set (entries_in dir ns). \<not> readable (snd x)) \<Longrightarrow> snd (walk_names p dir ns acc) \<noteq> None"
proof (induction p path n acc and p dir ns acc rule: walk_walk_names.induct)
  case (6 p dir n ns acc)
  show ?case
  proof (cases "walk p (Join dir (node_name n)) n acc")
    case (Pair acc' r)
    show ?thesis
    proof (cases r)
      case None
      with Pair "6.IH"(1) have "\<not> (\<exists>x \<in> set (entries (Join dir (node_name n)) n). \<not> readable (snd x))"
        by auto
      with "6.prems" have "\<exists>x \<in> set (entries_in dir ns). \<not> readable (snd x)" by auto
      from "6.IH"(2) [OF Pair [symmetric] None this] Pair None show ?thesis by simp
    next
      case (Some e')
      with Pair show ?thesis by simp
    qed
  qed
qed simp_all


lemma walk_unreadable_error:
  assumes "\<exists>x \<in> set (entries path n). \<not> readable (snd x)"
  shows "\<exists>acc' t. walk p path n acc = (acc', Some (PathError t))"
proof -
  obtain acc' r where w: "walk p path n acc = (acc', r)" by (cases "walk p path n acc") auto
  with walk_unreadable(1) [OF assms, of p acc] obtain err where r: "r = Some err" by auto
  with w walk_error_kind(1) [of p path n acc err] show ?thesis by auto
qed

lemma any_name_matches: "MatchString any_name s"
  unfolding MatchString_iff by (auto simp: any_name_def)

lemma ex_paths:
  "Join ''in'' ''RS_2020-01.zst'' = ''in/RS_2020-01.zst''"
  "Join ''in'' ''notes.txt'' = ''in/notes.txt''"
  "Join ''in'' ''2021'' = ''in/2021''"
  "Join ''in'' ''old.zst'' = ''in/old.zst''"
  "Join ''in/2021'' ''RC_2021-01.zst'' = ''in/2021/RC_2021-01.zst''"
  "Ext ''RS_2020-01.zst'' = ''.zst''"
  "Ext ''RC_2021-01.zst'' = ''.zst''"
  "Ext ''notes.txt'' = ''.txt''"
  by code_simp+

lemma ex_proc_fields:
  "Input ex_proc = ''in''" "FileFilter ex_proc = any_name" "MatchMode ex_proc = ''exact''"
  "ValuesRegex ex_proc = []"
  by (simp_all add: ex_proc_def)

text \<open>
  C9, as it is stated, fails on "regular files": the walk skips directories only.  A
  symbolic link whose name passes both tests is found, in a tree that holds no regular
  file.
\<close>

theorem discovery_regular_counterexample:
  "ProcessAndServe ex_proc ex_env False link_example [] =
     Serving ex_proc [''in/RS_2020-01.zst''] [Log LevelInfo ''found input file'' ''in/RS_2020-01.zst'']
   \<and> entries ''in'' link_example =
       [(''in'', link_example), (''in/RS_2020-01.zst'', File ''RS_2020-01.zst'' Symlink)]
   \<and> \<not> is_regular link_example
   \<and> \<not> is_regular (File ''RS_2020-01.zst'' Symlink)"
proof -
  have "ex_proc\<lparr>ValuesRegex := []\<rparr> = ex_proc" by (simp add: ex_proc_def)
  then show ?thesis
    by (simp add: ProcessAndServe_def link_example_def ex_proc_fields ex_paths visit_def
          any_name_matches Let_def)
qed

text \<open>
  C9, amended.  When the flag is not set on entry and the patterns compile: if every
  entry at and under the input root can be read, the files found are exactly the
  entries that are no directories, at any depth, whose name has the extension
  \<^verbatim>\<open>.zst\<close> and matches the file filter, in the order of the walk, each logged; with none
  found the call returns \<^verbatim>\<open>nil\<close> after a warning and \<^verbatim>\<open>Serve\<close> is not called; otherwise
  \<^verbatim>\<open>Serve\<close> is called with them.  If some entry cannot be read, the call returns that
  error and \<^verbatim>\<open>Serve\<close> is not called.
\<close>

theorem discovery_before_serve:
  assumes "\<not> shut"
    and "(if MatchMode p = ''regex'' then compile_all e (Values p) (ValuesRegex p)
          else Inr (ValuesRegex p)) = Inr rs"
  shows "((\<forall>x \<in> set (entries (Input p) root). readable (snd x)) \<longrightarrow>
            ProcessAndServe p e shut root lg =
              (if filter (eligible p) (entries (Input p) root) = []
               then Returned None
                      (lg @ [Log LevelWarn ''no input files found in input folder'' (Input p)])
               else Serving (p\<lparr>ValuesRegex := rs\<rparr>)
                      (map fst (filter (eligible p) (entries (Input p) root)))
                      (lg @ map found_entry (filter (eligible p) (entries (Input p) root)))))
     \<and> ((\<exists>x \<in> set (entries (Input p) root). \<not> readable (snd x)) \<longrightarrow>
            (\<exists>t lg'. ProcessAndServe p e shut root lg = Returned (Some (PathError t)) lg'))"
proof (intro conjI impI)
  let ?p = "p\<lparr>ValuesRegex := rs\<rparr>"
  have el: "eligible ?p = eligible p"
    by (simp add: eligible_def selected_def fun_eq_iff)
  assume "\<forall>x \<in> set (entries (Input p) root). readable (snd x)"
  from walk_readable(1) [OF this, of ?p "([], lg)"]
  have "walk ?p (Input p) root ([], lg) =
          ((map fst (filter (eligible p) (entries (Input p) root)),
            lg @ map found_entry (filter (eligible p) (entries (Input p) root))), None)"
    by (simp add: el)
  with assms show "ProcessAndServe p e shut root lg =
              (if filter (eligible p) (entries (Input p) root) = []
               then Returned None
                      (lg @ [Log LevelWarn ''no input files found in input folder'' (Input p)])
               else Serving (p\<lparr>ValuesRegex := rs\<rparr>)
                      (map fst (filter (eligible p) (entries (Input p) root)))
                      (lg @ map found_entry (filter (eligible p) (entries (Input p) root))))"
    by (simp add: ProcessAndServe_def Let_def)
next
  let ?p = "p\<lparr>ValuesRegex := rs\<rparr>"
  assume "\<exists>x \<in> set (entries (Input p) root). \<not> readable (snd x)"
  from walk_unreadable_error [OF this, of ?p "([], lg)"]
  obtain acc' t where "walk ?p (Input p) root ([], lg) = (acc', Some (PathError t))" by blast
  with assms show "\<exists>t lg'. ProcessAndServe p e shut root lg = Returned (Some (PathError t)) lg'"
    by (cases acc') (simp add: ProcessAndServe_def Let_def)
qed

theorem discovery_before_serve_witness:
  "list_all (\<lambda>x. readable (snd x)) (entries (Input ex_proc) tree_example)
   \<and> ProcessAndServe ex_proc ex_env False tree_example [] =
       Serving ex_proc [''in/RS_2020-01.zst'', ''in/2021/RC_2021-01.zst'']
         [Log LevelInfo ''found input file'' ''in/RS_2020-01.zst'',
          Log LevelInfo ''found input file'' ''in/2021/RC_2021-01.zst'']
   \<and> ProcessAndServe ex_proc ex_env False (Dir ''in'' [File ''notes.txt'' Regular]) [] =
       Returned None [Log LevelWarn ''no input files found in input folder'' ''in'']
   \<and> (\<exists>x \<in> set (entries (Input ex_proc) locked_example). \<not> readable (snd x))
   \<and> ProcessAndServe ex_proc ex_env False locked_example [] =
       Returned (Some (PathError ''permission denied''))
         [Log LevelInfo ''found input file'' ''in/RS_2020-01.zst'']"
proof -
  have shut: "\<not> False" by simp
  have rs: "(if MatchMode ex_proc = ''regex'' then compile_all ex_env (Values ex_proc) (ValuesRegex ex_proc)
          else Inr (ValuesRegex ex_proc)) = Inr []"
    by (simp add: ex_proc_fields)
  have same: "ex_proc\<lparr>ValuesRegex := []\<rparr> = ex_proc" by (simp add: ex_proc_def)
  note t1 = discovery_before_serve [OF shut rs, of tree_example "[]"]
  note t2 = discovery_before_serve [OF shut rs, of "Dir ''in'' [File ''notes.txt'' Regular]" "[]"]
  note t3 = discovery_before_serve [OF shut rs, of locked_example "[]"]
  have e1: "entries ''in'' tree_example =
      [(''in'', tree_example), (''in/RS_2020-01.zst'', File ''RS_2020-01.zst'' Regular),
       (''in/notes.txt'', File ''notes.txt'' Regular),
       (''in/2021'', Dir ''2021'' [File ''RC_2021-01.zst'' Regular]),
       (''in/2021/RC_2021-01.zst'', File ''RC_2021-01.zst'' Regular),
       (''in/old.zst'', Dir ''old.zst'' [])]"
    by (simp add: tree_example_def ex_paths)
  have r1: "\<forall>x \<in> set (entries (Input ex_proc) tree_example). readable (snd x)"
    by (simp add: e1 ex_proc_fields) (simp add: tree_example_def)
  have f1: "filter (eligible ex_proc) (entries ''in'' tree_example) =
      [(''in/RS_2020-01.zst'', File ''RS_2020-01.zst'' Regular),
       (''in/2021/RC_2021-01.zst'', File ''RC_2021-01.zst'' Regular)]"
    by (simp add: e1 eligible_def selected_def ex_paths ex_proc_fields any_name_matches)
       (simp add: tree_example_def)
  have c1: "ProcessAndServe ex_proc ex_env False tree_example [] =
       Serving ex_proc [''in/RS_2020-01.zst'', ''in/2021/RC_2021-01.zst'']
         [Log LevelInfo ''found input file'' ''in/RS_2020-01.zst'',
          Log LevelInfo ''found input file'' ''in/2021/RC_2021-01.zst'']"
    using t1 r1 by (simp add: f1 ex_proc_fields same found_entry_def)
  have r2: "\<forall>x \<in> set (entries (Input ex_proc) (Dir ''in'' [File ''notes.txt'' Regular])). readable (snd x)"
    by (simp add: ex_proc_fields)
  have c2: "ProcessAndServe ex_proc ex_env False (Dir ''in'' [File ''notes.txt'' Regular]) [] =
       Returned None [Log LevelWarn ''no input files found in input folder'' ''in'']"
    using t2 r2 by (simp add: eligible_def selected_def ex_paths ex_proc_fields)
  have r3: "\<exists>x \<in> set (entries (Input ex_proc) locked_example). \<not> readable (snd x)"
    by (simp add: locked_example_def ex_proc_fields)
  from t3 r3 have "\<exists>t lg'. ProcessAndServe ex_proc ex_env False locked_example [] =
      Returned (Some (PathError t)) lg'" by blast
  moreover have "ProcessAndServe ex_proc ex_env False locked_example [] =
       Returned (Some (PathError ''permission denied''))
         [Log LevelInfo ''found input file'' ''in/RS_2020-01.zst'']"
    by (simp add: ProcessAndServe_def locked_example_def ex_proc_fields ex_paths visit_def
          any_name_matches Let_def)
  moreover from r1 have "list_all (\<lambda>x. readable (snd x)) (entries (Input ex_proc) tree_example)"
    by (simp add: list_all_iff)
  ultimately show ?thesis using c1 c2 r3 by blast
qed

end
